theory Spec2Isabelle
  imports Main "HOL-Library.AList" "HOL-Library.Char_ord" "HOL-Library.List_Lexorder"
begin

section \<open>The release synchroniser \<open>scripts/update-versions.py\<close>\<close>

text \<open>
  The script fetches the release list of the upstream project, resolves a checksum
  manifest for each release, merges the result with the previously persisted record and
  writes the merged record as a JSON document. This theory embeds its functions in HOL and
  proves properties of them.

  Conventions of the embedding.
  \<^item> A Python \<open>str\<close> is a \<open>string\<close>; a \<open>char\<close> stands for the code point with the same
    number, so the model covers text whose code points are below 256. The character
    classes below are Python's classes restricted to that range.
  \<^item> A raised exception is a value \<open>Inl e\<close> of a result type \<open>error + 'a\<close>.
  \<^item> A Python \<open>dict\<close> is an association list in insertion order; assignment to a key is
    \<open>AList.update\<close>, which replaces the value of a present key in place and appends an
    absent key at the end, as Python does.
  \<^item> Log messages are not part of the model.
\<close>

subsection \<open>Exceptions\<close>

datatype error = RequestException | ValueError | KeyError | TypeError

subsection \<open>Character classes and string methods of Python\<close>

definition code_point :: "char \<Rightarrow> nat" where
  "code_point c = of_char c"

text \<open>\<open>str.isspace\<close>: the characters that \<open>strip\<close>, \<open>rstrip\<close> and \<open>split()\<close> treat as whitespace.\<close>

definition is_space :: "char \<Rightarrow> bool" where
  "is_space c = (let n = code_point c in
     (9 \<le> n \<and> n \<le> 13) \<or> (28 \<le> n \<and> n \<le> 32) \<or> n = 133 \<or> n = 160)"

text \<open>The line boundaries of \<open>str.splitlines\<close>.\<close>

definition is_linebreak :: "char \<Rightarrow> bool" where
  "is_linebreak c = (let n = code_point c in
     (10 \<le> n \<and> n \<le> 13) \<or> (28 \<le> n \<and> n \<le> 30) \<or> n = 133)"

text \<open>The class \<open>\d\<close> of the \<open>re\<close> module on \<open>str\<close> patterns.\<close>

definition is_digit :: "char \<Rightarrow> bool" where
  "is_digit c = (let n = code_point c in 48 \<le> n \<and> n \<le> 57)"

text \<open>The class \<open>\w\<close> of the \<open>re\<close> module on \<open>str\<close> patterns: alphanumeric or underscore.\<close>

definition is_word :: "char \<Rightarrow> bool" where
  "is_word c = (let n = code_point c in
     (48 \<le> n \<and> n \<le> 57) \<or> (65 \<le> n \<and> n \<le> 90) \<or> n = 95 \<or> (97 \<le> n \<and> n \<le> 122) \<or>
     n = 170 \<or> n = 178 \<or> n = 179 \<or> n = 181 \<or> n = 185 \<or> n = 186 \<or>
     (188 \<le> n \<and> n \<le> 190) \<or> (192 \<le> n \<and> n \<le> 214) \<or> (216 \<le> n \<and> n \<le> 246) \<or>
     (248 \<le> n \<and> n \<le> 255))"

definition lstrip :: "string \<Rightarrow> string" where
  "lstrip s = dropWhile is_space s"

definition rstrip :: "string \<Rightarrow> string" where
  "rstrip s = rev (dropWhile is_space (rev s))"

definition strip :: "string \<Rightarrow> string" where
  "strip s = rstrip (lstrip s)"

text \<open>\<open>s.lstrip(chars)\<close>: drop every leading character that occurs in \<open>chars\<close>.\<close>

definition lstrip_chars :: "string \<Rightarrow> string \<Rightarrow> string" where
  "lstrip_chars chars s = dropWhile (\<lambda>c. c \<in> set chars) s"

text \<open>\<open>s.split(sep)\<close> for a one-character separator: never an empty list.\<close>

fun split_on :: "char \<Rightarrow> string \<Rightarrow> string list" where
  "split_on sep [] = [[]]"
| "split_on sep (c # cs) =
     (if c = sep then [] # split_on sep cs
      else (case split_on sep cs of
              [] \<Rightarrow> [[c]]
            | l # ls \<Rightarrow> (c # l) # ls))"

text \<open>\<open>s.split()\<close>: the maximal runs of non-whitespace characters.\<close>

fun split_ws_from :: "string \<Rightarrow> string \<Rightarrow> string list" where
  "split_ws_from cur [] = (if cur = [] then [] else [cur])"
| "split_ws_from cur (c # cs) =
     (if is_space c then (if cur = [] then split_ws_from [] cs else cur # split_ws_from [] cs)
      else split_ws_from (cur @ [c]) cs)"

definition split_ws :: "string \<Rightarrow> string list" where
  "split_ws s = split_ws_from [] s"

text \<open>\<open>s.splitlines()\<close>: no empty last line, and \<open>\r\n\<close> is one boundary.\<close>

fun splitlines_from :: "string \<Rightarrow> string \<Rightarrow> string list" where
  "splitlines_from cur [] = (if cur = [] then [] else [cur])"
| "splitlines_from cur (c # cs) =
     (if c = CHR 0x0D then
        (case cs of
           [] \<Rightarrow> [cur]
         | d # ds \<Rightarrow> if d = CHR 0x0A then cur # splitlines_from [] ds
                     else cur # splitlines_from [] cs)
      else if is_linebreak c then cur # splitlines_from [] cs
      else splitlines_from (cur @ [c]) cs)"

definition splitlines :: "string \<Rightarrow> string list" where
  "splitlines s = splitlines_from [] s"

text \<open>\<open>sep.join(parts)\<close>.\<close>

fun join :: "string \<Rightarrow> string list \<Rightarrow> string" where
  "join sep [] = []"
| "join sep [l] = l"
| "join sep (l # ls) = l @ sep @ join sep ls"

subsection \<open>The two regular expressions\<close>

text \<open>
  The \<open>re\<close> module matches by backtracking. A greedy \<open>[class]+\<close> followed by the rest \<open>k\<close>
  of the pattern first tries to take one more character and, when the rest fails after
  that, continues with what it has taken so far. \<open>k\<close> receives the text taken and the text
  left.
\<close>

fun greedy_star :: "(char \<Rightarrow> bool) \<Rightarrow> (string \<Rightarrow> string \<Rightarrow> 'a option) \<Rightarrow> string \<Rightarrow> string \<Rightarrow> 'a option" where
  "greedy_star P k taken [] = k taken []"
| "greedy_star P k taken (c # cs) =
     (if P c then
        (case greedy_star P k (taken @ [c]) cs of
           Some r \<Rightarrow> Some r
         | None \<Rightarrow> k taken (c # cs))
      else k taken (c # cs))"

fun greedy_plus :: "(char \<Rightarrow> bool) \<Rightarrow> (string \<Rightarrow> string \<Rightarrow> 'a option) \<Rightarrow> string \<Rightarrow> 'a option" where
  "greedy_plus P k [] = None"
| "greedy_plus P k (c # cs) = (if P c then greedy_star P k [c] cs else None)"

text \<open>A literal piece of a pattern: the text left after it, if the text starts with it.\<close>

fun literal :: "string \<Rightarrow> string \<Rightarrow> string option" where
  "literal [] s = Some s"
| "literal (p # ps) [] = None"
| "literal (p # ps) (c # cs) = (if p = c then literal ps cs else None)"

text \<open>
  \<open>scarb-v[\d\.]+-([\w-]+)\.(tar\.gz|zip)\<close> matched at the start of the text; the result is
  group 1 of the first match in backtracking order.
\<close>

definition asset_suffix :: "string \<Rightarrow> string \<Rightarrow> string option" where
  "asset_suffix platform s =
     (case literal ''.'' s of
        None \<Rightarrow> None
      | Some s1 \<Rightarrow>
          if literal ''tar.gz'' s1 \<noteq> None \<or> literal ''zip'' s1 \<noteq> None then Some platform
          else None)"

definition asset_platform :: "string \<Rightarrow> string \<Rightarrow> string option" where
  "asset_platform version s =
     (case literal ''-'' s of
        None \<Rightarrow> None
      | Some s1 \<Rightarrow> greedy_plus (\<lambda>c. is_word c \<or> c = CHR ''-'') asset_suffix s1)"

definition asset_match :: "string \<Rightarrow> string option" where
  "asset_match s =
     (case literal ''scarb-v'' s of
        None \<Rightarrow> None
      | Some s1 \<Rightarrow> greedy_plus (\<lambda>c. is_digit c \<or> c = CHR ''.'') asset_platform s1)"

text \<open>\<open>re.search\<close>: the match at the leftmost position that has one.\<close>

fun asset_search :: "string \<Rightarrow> string option" where
  "asset_search [] = asset_match []"
| "asset_search (c # cs) =
     (case asset_match (c # cs) of
        Some g \<Rightarrow> Some g
      | None \<Rightarrow> asset_search cs)"

text \<open>
  \<open><!--.*?-->\<close> with \<open>re.DOTALL\<close>: after the opening, the lazy \<open>.*?\<close> takes as few
  characters as possible, so the match ends at the first \<open>-->\<close>. The result is the text
  after the match.
\<close>

fun comment_close :: "string \<Rightarrow> string option" where
  "comment_close [] = None"
| "comment_close (c # cs) =
     (case literal ''-->'' (c # cs) of
        Some rest \<Rightarrow> Some rest
      | None \<Rightarrow> comment_close cs)"

definition comment_match :: "string \<Rightarrow> string option" where
  "comment_match s =
     (case literal ''<!--'' s of
        None \<Rightarrow> None
      | Some s1 \<Rightarrow> comment_close s1)"

lemma literal_length: "literal p s = Some r \<Longrightarrow> length s = length p + length r"
  by (induction p s rule: literal.induct) (auto split: if_splits)

lemma comment_close_length: "comment_close s = Some r \<Longrightarrow> length r < length s"
  by (induction s) (auto split: option.splits if_splits dest: literal_length)

lemma comment_match_length: "comment_match s = Some r \<Longrightarrow> length r < length s"
  by (auto simp: comment_match_def split: option.splits
           dest!: literal_length comment_close_length)

text \<open>
  \<open>re.sub(pattern, '', body)\<close>: from left to right, a match is dropped and the scan
  goes on after it; a character at which nothing matches is kept.
\<close>

function remove_comments :: "string \<Rightarrow> string" where
  "remove_comments [] = []"
| "remove_comments (c # cs) =
     (case comment_match (c # cs) of
        Some rest \<Rightarrow> remove_comments rest
      | None \<Rightarrow> c # remove_comments cs)"
  by pat_completeness auto
termination
  by (relation "measure length") (auto dest: comment_match_length)

subsection \<open>\<open>parse_checksums\<close>\<close>

type_synonym checksums = "(string \<times> string) list"

text \<open>
  The body of the loop over the lines. The tuple assignment \<open>checksum, filename = parts\<close>
  raises \<open>ValueError\<close> unless \<open>parts\<close> has exactly two elements.
\<close>

definition checksum_line :: "checksums \<Rightarrow> string \<Rightarrow> error + checksums" where
  "checksum_line checksums line =
     (if strip line = [] then Inr checksums
      else let parts = split_ws line in
        if length parts \<ge> 2 then
          (case parts of
             [checksum, filename] \<Rightarrow>
               (case asset_search filename of
                  Some platform \<Rightarrow> Inr (AList.update platform checksum checksums)
                | None \<Rightarrow> Inr checksums)
           | _ \<Rightarrow> Inl ValueError)
        else Inr checksums)"

fun checksum_lines :: "checksums \<Rightarrow> string list \<Rightarrow> error + checksums" where
  "checksum_lines checksums [] = Inr checksums"
| "checksum_lines checksums (line # lines) =
     (case checksum_line checksums line of
        Inl e \<Rightarrow> Inl e
      | Inr checksums' \<Rightarrow> checksum_lines checksums' lines)"

definition parse_checksums :: "string \<Rightarrow> error + checksums" where
  "parse_checksums text = checksum_lines [] (split_on CHR 0x0A text)"

subsection \<open>\<open>process_changelog\<close>\<close>

text \<open>The body is \<open>None\<close> or a string; both \<open>None\<close> and the empty string are false.\<close>

definition process_changelog :: "string option \<Rightarrow> string option" where
  "process_changelog body =
     (case body of
        None \<Rightarrow> None
      | Some b \<Rightarrow>
          if b = [] then None
          else let b1 = remove_comments b;
                   b2 = join [CHR 0x0A] (map rstrip (splitlines b1));
                   b3 = strip b2
               in if b3 = [] then None else Some b3)"

subsection \<open>JSON values\<close>

text \<open>
  What \<open>json.load\<close> returns and \<open>json.dump\<close> accepts: \<open>None\<close>, \<open>bool\<close>, \<open>int\<close>, \<open>str\<close>,
  \<open>list\<close> and \<open>dict\<close> with \<open>str\<close> keys. Numbers with a fraction or an exponent are outside
  the model.
\<close>

datatype json =
    JNull
  | JBool bool
  | JInt int
  | JStr string
  | JArr "json list"
  | JObj "(string \<times> json) list"

text \<open>\<open>len(x)\<close>; \<open>None\<close>, booleans and integers have no length.\<close>

fun py_len :: "json \<Rightarrow> error + nat" where
  "py_len (JObj kvs) = Inr (length kvs)"
| "py_len (JArr xs) = Inr (length xs)"
| "py_len (JStr s) = Inr (length s)"
| "py_len _ = Inl TypeError"

fun is_substring :: "string \<Rightarrow> string \<Rightarrow> bool" where
  "is_substring s [] = (s = [])"
| "is_substring s (c # cs) = (literal s (c # cs) \<noteq> None \<or> is_substring s cs)"

text \<open>
  \<open>key in x\<close> for a \<open>str\<close> key: a key of a dict, an element of a list, a substring of a
  string; \<open>TypeError\<close> otherwise.
\<close>

fun py_contains :: "json \<Rightarrow> string \<Rightarrow> error + bool" where
  "py_contains (JObj kvs) key = Inr (map_of kvs key \<noteq> None)"
| "py_contains (JArr xs) key = Inr (JStr key \<in> set xs)"
| "py_contains (JStr s) key = Inr (is_substring key s)"
| "py_contains _ key = Inl TypeError"

text \<open>
  \<open>x[key]\<close> for a \<open>str\<close> key: \<open>KeyError\<close> on a dict without the key, \<open>TypeError\<close> on
  everything that is not a dict.
\<close>

fun py_getitem :: "json \<Rightarrow> string \<Rightarrow> error + json" where
  "py_getitem (JObj kvs) key =
     (case map_of kvs key of
        None \<Rightarrow> Inl KeyError
      | Some v \<Rightarrow> Inr v)"
| "py_getitem _ key = Inl TypeError"

subsection \<open>\<open>json.dump(versions, f, indent=2, sort_keys=True)\<close>\<close>

definition digit_char :: "nat \<Rightarrow> char" where
  "digit_char d = char_of (48 + d)"

function show_nat :: "nat \<Rightarrow> string" where
  "show_nat n = (if n < 10 then [digit_char n] else show_nat (n div 10) @ [digit_char (n mod 10)])"
  by pat_completeness auto
termination
  by (relation "measure id") auto

definition show_int :: "int \<Rightarrow> string" where
  "show_int i = (if i < 0 then CHR ''-'' # show_nat (nat (- i)) else show_nat (nat i))"

definition hex_char :: "nat \<Rightarrow> char" where
  "hex_char d = (if d < 10 then char_of (48 + d) else char_of (87 + d))"

text \<open>
  With \<open>ensure_ascii\<close> (the default) a character outside \<open>' '\<close> .. \<open>'~'\<close>, a quote and a
  backslash are escaped.
\<close>

definition escape_char :: "char \<Rightarrow> string" where
  "escape_char c = (let n = code_point c in
     if c = CHR 0x5C then [CHR 0x5C, CHR 0x5C]
     else if c = CHR 0x22 then [CHR 0x5C, CHR 0x22]
     else if n = 8 then [CHR 0x5C, CHR ''b'']
     else if n = 12 then [CHR 0x5C, CHR ''f'']
     else if n = 10 then [CHR 0x5C, CHR ''n'']
     else if n = 13 then [CHR 0x5C, CHR ''r'']
     else if n = 9 then [CHR 0x5C, CHR ''t'']
     else if 32 \<le> n \<and> n \<le> 126 then [c]
     else [CHR 0x5C, CHR ''u'', hex_char (n div 4096 mod 16), hex_char (n div 256 mod 16),
           hex_char (n div 16 mod 16), hex_char (n mod 16)])"

definition encode_str :: "string \<Rightarrow> string" where
  "encode_str s = [CHR 0x22] @ concat (map escape_char s) @ [CHR 0x22]"

text \<open>A line break followed by the indentation of nesting level \<open>level\<close>.\<close>

definition newline_indent :: "nat \<Rightarrow> string" where
  "newline_indent level = CHR 0x0A # replicate (2 * level) CHR '' ''"

text \<open>\<open>sorted(dct.items())\<close>: the keys of a dict are distinct, so the keys decide.\<close>

definition sorted_items :: "(string \<times> 'a) list \<Rightarrow> (string \<times> 'a) list" where
  "sorted_items kvs = sort_key fst kvs"

lemma sorted_items_size:
  "(k, v) \<in> set (sorted_items kvs) \<Longrightarrow> size v < Suc (size_list (size_prod (\<lambda>_. 0) size) kvs)"
proof -
  assume "(k, v) \<in> set (sorted_items kvs)"
  then have "(k, v) \<in> set kvs" by (simp add: sorted_items_def)
  then have "size_prod (\<lambda>_. 0) size (k, v) \<le> size_list (size_prod (\<lambda>_. 0) size) kvs"
    by (rule size_list_estimation') simp
  then show ?thesis by simp
qed

function encode :: "nat \<Rightarrow> json \<Rightarrow> string" where
  "encode level JNull = ''null''"
| "encode level (JBool b) = (if b then ''true'' else ''false'')"
| "encode level (JInt i) = show_int i"
| "encode level (JStr s) = encode_str s"
| "encode level (JArr xs) =
     (if xs = [] then ''[]''
      else ''['' @ newline_indent (Suc level) @
           join ('','' @ newline_indent (Suc level)) (map (encode (Suc level)) xs) @
           newline_indent level @ '']'')"
| "encode level (JObj kvs) =
     (if kvs = [] then ''{}''
      else ''{'' @ newline_indent (Suc level) @
           join ('','' @ newline_indent (Suc level))
             (map (\<lambda>(k, v). encode_str k @ '': '' @ encode (Suc level) v) (sorted_items kvs)) @
           newline_indent level @ ''}'')"
  by pat_completeness auto
termination
proof (relation "measure (\<lambda>(level, v). size v)", goal_cases)
  case 1
  show ?case by simp
next
  case (2 level xs x)
  then have "size x \<le> size_list size xs" by (simp add: size_list_estimation')
  then show ?case by simp
next
  case (3 level kvs kv k v)
  then show ?case by (auto dest: sorted_items_size)
qed

definition json_dumps :: "json \<Rightarrow> string" where
  "json_dumps v = encode 0 v"

text \<open>
  The text that \<open>json.dump\<close> writes lists the entries of every dict in the order of their
  keys, and \<open>json.load\<close> builds a dict in the order of the text. So the decoder of the
  standard library returns, for the text written for a document, the document with the
  entries of every dict in the order of their keys.
\<close>

fun key_sorted :: "json \<Rightarrow> json" where
  "key_sorted (JArr xs) = JArr (map key_sorted xs)"
| "key_sorted (JObj kvs) = JObj (sorted_items (map (\<lambda>(k, v). (k, key_sorted v)) kvs))"
| "key_sorted v = v"

subsection \<open>Releases and the remote service\<close>

text \<open>An entry of a release's \<open>assets\<close> list, with the fields the script reads.\<close>

record asset =
  name :: string
  browser_download_url :: string
  asset_size :: int
  download_count :: int
  created_at :: string
  updated_at :: string

text \<open>A release as the release-list endpoint reports it, with the fields the script reads.\<close>

record release =
  tag_name :: string
  draft :: bool
  prerelease :: bool
  published_at :: string
  body :: "string option"
  assets :: "asset list"

text \<open>
  The outcome of \<open>requests.get\<close>: the request fails with a \<open>RequestException\<close>, or a
  response with a status code and a body arrives.
\<close>

datatype 'a response = Transport_error | Http nat 'a

text \<open>\<open>response.raise_for_status()\<close> raises for the status codes 400 to 599.\<close>

definition raise_for_status :: "nat \<Rightarrow> bool" where
  "raise_for_status status = (400 \<le> status \<and> status < 600)"

record datetime =
  year :: nat
  month :: nat
  day :: nat
  hour :: nat
  minute :: nat
  second :: nat

text \<open>
  Everything the script reads from outside: the response of the release-list endpoint
  (the body already decoded by \<open>response.json()\<close>, \<open>None\<close> when it is not JSON), the
  response to the download of the manifest of a tag, the clock, and the decoder
  \<open>json.load\<close> of the standard library (\<open>None\<close> when it raises).
\<close>

record env =
  releases_response :: "release list option response"
  manifest_response :: "string \<Rightarrow> string response"
  now :: datetime
  json_load :: "string \<Rightarrow> json option"

subsection \<open>\<open>fetch_releases\<close>, \<open>get_asset_info\<close>, \<open>get_version_checksums\<close>\<close>

definition fetch_releases :: "env \<Rightarrow> error + release list" where
  "fetch_releases e =
     (case releases_response e of
        Transport_error \<Rightarrow> Inl RequestException
      | Http status decoded \<Rightarrow>
          if raise_for_status status then Inl RequestException
          else (case decoded of
                  None \<Rightarrow> Inl RequestException
                | Some releases \<Rightarrow> Inr releases))"

definition asset_entry :: "asset \<Rightarrow> json" where
  "asset_entry a = JObj
     [(''url'', JStr (browser_download_url a)),
      (''size'', JInt (asset_size a)),
      (''download_count'', JInt (download_count a)),
      (''created_at'', JStr (created_at a)),
      (''updated_at'', JStr (updated_at a))]"

fun asset_entries :: "(string \<times> json) list \<Rightarrow> asset list \<Rightarrow> (string \<times> json) list" where
  "asset_entries acc [] = acc"
| "asset_entries acc (a # as) = asset_entries (AList.update (name a) (asset_entry a) acc) as"

definition get_asset_info :: "release \<Rightarrow> (string \<times> json) list" where
  "get_asset_info r = asset_entries [] (assets r)"

text \<open>
  The \<open>except\<close> clause catches \<open>RequestException\<close> only and returns \<open>None\<close>; an exception of
  \<open>parse_checksums\<close> passes through.
\<close>

definition get_version_checksums :: "env \<Rightarrow> string \<Rightarrow> error + checksums option" where
  "get_version_checksums e version_tag =
     (case manifest_response e version_tag of
        Transport_error \<Rightarrow> Inr None
      | Http status text \<Rightarrow>
          if raise_for_status status then Inr None
          else (case parse_checksums text of
                  Inl err \<Rightarrow> if err = RequestException then Inr None else Inl err
                | Inr checksums \<Rightarrow> Inr (Some checksums)))"

subsection \<open>The loop of \<open>update_versions_file\<close>\<close>

text \<open>
  The variables of the loop, and the tags for which \<open>get_version_checksums\<close> has been
  called, in the order of the calls.
\<close>

record merge_state =
  versions :: "(string \<times> json) list"
  processed_count :: nat
  skipped_count :: nat
  resolver_calls :: "string list"

definition initial_state :: merge_state where
  "initial_state = \<lparr>versions = [], processed_count = 0, skipped_count = 0, resolver_calls = []\<rparr>"

definition version_key :: "string \<Rightarrow> string" where
  "version_key tag = lstrip_chars ''v'' tag"

text \<open>
  Lines 140 to 147: the stored record of the version if the version is in
  \<open>current_versions\<close> and its \<open>['metadata']['releaseDate']\<close> equals the release's
  \<open>published_at\<close>.
\<close>

definition cached_record :: "json \<Rightarrow> string \<Rightarrow> string \<Rightarrow> error + json option" where
  "cached_record current_versions version current_date =
     (case py_contains current_versions version of
        Inl err \<Rightarrow> Inl err
      | Inr False \<Rightarrow> Inr None
      | Inr True \<Rightarrow>
          (case py_getitem current_versions version of
             Inl err \<Rightarrow> Inl err
           | Inr stored \<Rightarrow>
               (case py_getitem stored ''metadata'' of
                  Inl err \<Rightarrow> Inl err
                | Inr metadata \<Rightarrow>
                    (case py_getitem metadata ''releaseDate'' of
                       Inl err \<Rightarrow> Inl err
                     | Inr existing_date \<Rightarrow>
                         if existing_date = JStr current_date then Inr (Some stored)
                         else Inr None))))"

text \<open>Lines 155 to 165: the record built for a release from its checksums.\<close>

definition fresh_record :: "release \<Rightarrow> checksums \<Rightarrow> json" where
  "fresh_record r checksums = JObj
     [(''hashes'', JObj (map (\<lambda>(platform, checksum). (platform, JStr checksum)) checksums)),
      (''metadata'', JObj
         [(''releaseDate'', JStr (published_at r)),
          (''prerelease'', JBool (prerelease r)),
          (''draft'', JBool (draft r)),
          (''changelog'', (case process_changelog (body r) of None \<Rightarrow> JNull | Some s \<Rightarrow> JStr s)),
          (''downloadCount'', JInt (sum_list (map download_count (assets r)))),
          (''assets'', JObj (get_asset_info r))])]"

text \<open>The body of the loop; \<open>if checksums:\<close> is false for \<open>None\<close> and for an empty dict.\<close>

definition process_release :: "env \<Rightarrow> json \<Rightarrow> merge_state \<Rightarrow> release \<Rightarrow> error + merge_state" where
  "process_release e current_versions st r =
     (let version = version_key (tag_name r) in
      if draft r then Inr (st\<lparr>skipped_count := skipped_count st + 1\<rparr>)
      else
        (case cached_record current_versions version (published_at r) of
           Inl err \<Rightarrow> Inl err
         | Inr (Some stored) \<Rightarrow>
             Inr (st\<lparr>versions := AList.update version stored (versions st),
                     processed_count := processed_count st + 1\<rparr>)
         | Inr None \<Rightarrow>
             (case get_version_checksums e (tag_name r) of
                Inl err \<Rightarrow> Inl err
              | Inr result \<Rightarrow>
                  (let st1 = st\<lparr>resolver_calls := resolver_calls st @ [tag_name r]\<rparr> in
                   case result of
                     None \<Rightarrow> Inr (st1\<lparr>skipped_count := skipped_count st1 + 1\<rparr>)
                   | Some checksums \<Rightarrow>
                       if checksums \<noteq> [] then
                         Inr (st1\<lparr>versions := AList.update version (fresh_record r checksums) (versions st1),
                                  processed_count := processed_count st1 + 1\<rparr>)
                       else Inr (st1\<lparr>skipped_count := skipped_count st1 + 1\<rparr>)))))"

fun process_releases :: "env \<Rightarrow> json \<Rightarrow> merge_state \<Rightarrow> release list \<Rightarrow> error + merge_state" where
  "process_releases e current_versions st [] = Inr st"
| "process_releases e current_versions st (r # rs) =
     (case process_release e current_versions st r of
        Inl err \<Rightarrow> Inl err
      | Inr st' \<Rightarrow> process_releases e current_versions st' rs)"

subsection \<open>Files\<close>

text \<open>
  A path is the list of its components; the file system maps the paths of regular files
  to their content. Directories, permissions and the log file of the \<open>logging\<close> module are
  not modelled: opening, renaming and writing a file succeed.
\<close>

type_synonym path = "string list"

type_synonym filesystem = "path \<Rightarrow> string option"

text \<open>\<open>PurePath.name\<close> and \<open>PurePath.suffix\<close>.\<close>

definition path_name :: "path \<Rightarrow> string" where
  "path_name p = (if p = [] then [] else last p)"

definition rfind_dot :: "string \<Rightarrow> nat option" where
  "rfind_dot s =
     (if CHR ''.'' \<in> set s
      then Some (length s - 1 - length (takeWhile (\<lambda>c. c \<noteq> CHR ''.'') (rev s)))
      else None)"

definition path_suffix :: "path \<Rightarrow> string" where
  "path_suffix p =
     (let nm = path_name p in
      case rfind_dot nm of
        None \<Rightarrow> []
      | Some i \<Rightarrow> if 0 < i \<and> i < length nm - 1 then drop i nm else [])"

text \<open>
  \<open>PurePath.with_suffix\<close> for a suffix that starts with a dot, is not the dot alone and
  has no separator: \<open>ValueError\<close> on a path with an empty name.
\<close>

definition with_suffix :: "path \<Rightarrow> string \<Rightarrow> error + path" where
  "with_suffix p suffix =
     (let nm = path_name p in
      if nm = [] then Inl ValueError
      else let old_suffix = path_suffix p;
               nm' = (if old_suffix = [] then nm @ suffix
                      else take (length nm - length old_suffix) nm @ suffix)
           in Inr (butlast p @ [nm']))"

definition two_digits :: "nat \<Rightarrow> string" where
  "two_digits n = (if n < 10 then CHR ''0'' # show_nat n else show_nat n)"

text \<open>\<open>strftime("%Y%m%d_%H%M%S")\<close>.\<close>

definition strftime :: "datetime \<Rightarrow> string" where
  "strftime t = show_nat (year t) @ two_digits (month t) @ two_digits (day t) @ ''_'' @
                two_digits (hour t) @ two_digits (minute t) @ two_digits (second t)"

definition backup_suffix :: "datetime \<Rightarrow> string" where
  "backup_suffix t = ''.json.bak-'' @ strftime t"

text \<open>\<open>Path.rename\<close>: the content moves to the target, the source path is free.\<close>

definition rename :: "filesystem \<Rightarrow> path \<Rightarrow> path \<Rightarrow> filesystem" where
  "rename fs src dst = (fs(dst := fs src))(src := None)"

subsection \<open>\<open>load_current_versions\<close>, \<open>update_versions_file\<close>, \<open>main\<close>\<close>

text \<open>Every exception of the decoder is caught; the result is then the empty dict.\<close>

definition load_current_versions :: "env \<Rightarrow> filesystem \<Rightarrow> path \<Rightarrow> json" where
  "load_current_versions e fs versions_file =
     (case fs versions_file of
        None \<Rightarrow> JObj []
      | Some text \<Rightarrow>
          (case json_load e text of
             None \<Rightarrow> JObj []
           | Some v \<Rightarrow> v))"

text \<open>Lines 176 to 180: move an existing file aside.\<close>

definition backup_existing :: "env \<Rightarrow> filesystem \<Rightarrow> path \<Rightarrow> error + filesystem" where
  "backup_existing e fs versions_file =
     (if fs versions_file \<noteq> None then
        (case with_suffix versions_file (backup_suffix (now e)) of
           Inl err \<Rightarrow> Inl err
         | Inr backup_path \<Rightarrow> Inr (rename fs versions_file backup_path))
      else Inr fs)"

text \<open>
  The result is the exception that leaves the function or the final variables of the
  loop, together with the file system afterwards.
\<close>

definition update_versions_file :: "env \<Rightarrow> filesystem \<Rightarrow> path \<Rightarrow> (error + merge_state) \<times> filesystem" where
  "update_versions_file e fs versions_file =
     (let current_versions = load_current_versions e fs versions_file in
      case py_len current_versions of
        Inl err \<Rightarrow> (Inl err, fs)
      | Inr current_count \<Rightarrow>
          (case fetch_releases e of
             Inl err \<Rightarrow> (Inl err, fs)
           | Inr releases \<Rightarrow>
               (case process_releases e current_versions initial_state releases of
                  Inl err \<Rightarrow> (Inl err, fs)
                | Inr st \<Rightarrow>
                    (case backup_existing e fs versions_file of
                       Inl err \<Rightarrow> (Inl err, fs)
                     | Inr fs1 \<Rightarrow>
                         (Inr st, fs1(versions_file \<mapsto> json_dumps (JObj (versions st))))))))"

definition versions_path :: path where
  "versions_path = [''versions'', ''versions.json'']"

text \<open>The result is the exit status of the process and the file system afterwards.\<close>

definition main :: "env \<Rightarrow> filesystem \<Rightarrow> nat \<times> filesystem" where
  "main e fs =
     (case update_versions_file e fs versions_path of
        (Inl err, fs') \<Rightarrow> (1, fs')
      | (Inr st, fs') \<Rightarrow> (0, fs'))"

subsection \<open>Notions for comparing two runs\<close>

text \<open>
  A record is dated \<open>d\<close> if its \<open>['metadata']['releaseDate']\<close> is the string \<open>d\<close>.
  \<open>fetched_record\<close> is what lines 152 to 170 store for a release, \<open>effect\<close> what the body of
  the loop stores for it (\<open>None\<close>: nothing). Two values of a key in two runs agree with
  respect to the final value of the first run if the second is the final value, up to the
  order of the entries, whenever the first is.
\<close>

definition dated :: "json \<Rightarrow> string \<Rightarrow> bool" where
  "dated v d =
     (case py_getitem v ''metadata'' of
        Inl err \<Rightarrow> False
      | Inr metadata \<Rightarrow> py_getitem metadata ''releaseDate'' = Inr (JStr d))"

definition fetched_record :: "env \<Rightarrow> release \<Rightarrow> error + json option" where
  "fetched_record e r =
     (case get_version_checksums e (tag_name r) of
        Inl err \<Rightarrow> Inl err
      | Inr None \<Rightarrow> Inr None
      | Inr (Some checksums) \<Rightarrow>
          if checksums \<noteq> [] then Inr (Some (fresh_record r checksums)) else Inr None)"

definition effect :: "env \<Rightarrow> json \<Rightarrow> release \<Rightarrow> error + json option" where
  "effect e current_versions r =
     (if draft r then Inr None
      else case cached_record current_versions (version_key (tag_name r)) (published_at r) of
             Inl err \<Rightarrow> Inl err
           | Inr (Some stored) \<Rightarrow> Inr (Some stored)
           | Inr None \<Rightarrow> fetched_record e r)"

definition agrees :: "json option \<Rightarrow> json option \<Rightarrow> json option \<Rightarrow> bool" where
  "agrees final a b \<longleftrightarrow>
     (a = final \<longrightarrow> map_option key_sorted b = map_option key_sorted final) \<and>
     (\<forall>w. a = Some w \<longrightarrow> (\<exists>d. dated w d))"

section \<open>Example inputs\<close>

text \<open>
  A release list with a draft, a release with a manifest, a release whose manifest is
  empty and a release without a manifest, and a previously persisted record for the
  version of the second.
\<close>

definition ex_asset :: asset where
  "ex_asset = \<lparr>name = ''scarb-v1.0.0-x86_64-linux.tar.gz'',
     browser_download_url = ''https://example.org/scarb-v1.0.0-x86_64-linux.tar.gz'',
     asset_size = 1000, download_count = 3,
     created_at = ''2024-01-01T00:00:00Z'', updated_at = ''2024-01-01T00:00:01Z''\<rparr>"

definition ex_release :: release where
  "ex_release = \<lparr>tag_name = ''v1.0.0'', draft = False, prerelease = False,
     published_at = ''2024-01-01T00:00:02Z'', body = Some ''First release'',
     assets = [ex_asset]\<rparr>"

definition ex_draft :: release where
  "ex_draft = \<lparr>tag_name = ''1.0.0'', draft = True, prerelease = False,
     published_at = ''2024-02-01T00:00:00Z'', body = None, assets = []\<rparr>"

definition ex_empty :: release where
  "ex_empty = \<lparr>tag_name = ''v0.9.0'', draft = False, prerelease = True,
     published_at = ''2023-06-01T00:00:00Z'', body = Some '''', assets = []\<rparr>"

definition ex_missing :: release where
  "ex_missing = \<lparr>tag_name = ''v0.8.0'', draft = False, prerelease = False,
     published_at = ''2023-01-01T00:00:00Z'', body = None, assets = []\<rparr>"

definition ex_manifests :: "string \<Rightarrow> string response" where
  "ex_manifests tag =
     (if tag = ''v1.0.0'' then Http 200 ''abcd1234  scarb-v1.0.0-x86_64-linux.tar.gz''
      else if tag = ''v0.9.0'' then Http 200 ''''
      else Http 404 ''Not Found'')"

definition ex_written :: "(string \<times> json) list" where
  "ex_written = [(''1.0.0'', fresh_record ex_release [(''x86_64-linux'', ''abcd1234'')])]"

text \<open>
  The decoder on the texts of the example: the text written for the releases of the
  example, and a text that is not JSON.
\<close>

definition ex_json_load :: "string \<Rightarrow> json option" where
  "ex_json_load text =
     (if text = json_dumps (JObj ex_written) then Some (key_sorted (JObj ex_written))
      else None)"

definition ex_env :: env where
  "ex_env = \<lparr>releases_response = Http 200 (Some [ex_draft, ex_release, ex_empty, ex_missing]),
     manifest_response = ex_manifests,
     now = \<lparr>year = 2024, month = 3, day = 9, hour = 7, minute = 5, second = 0\<rparr>,
     json_load = ex_json_load\<rparr>"

definition ex_stored :: json where
  "ex_stored = JObj
     [(''hashes'', JObj [(''x86_64-linux'', JStr ''0000ffff'')]),
      (''metadata'', JObj [(''releaseDate'', JStr ''2024-01-01T00:00:02Z''),
                           (''note'', JStr ''kept as stored'')])]"

definition ex_current :: json where
  "ex_current = JObj [(''1.0.0'', ex_stored)]"

definition ex_fs :: filesystem where
  "ex_fs = Map.empty(versions_path \<mapsto> ''old content'')"

text \<open>
  A release whose tag differs from \<open>v1.0.0\<close> by one more leading \<open>v\<close>, a remote service
  that has a manifest for it, and a file system in which a backup with the time stamp of
  the example clock already exists.
\<close>

definition ex_collision :: release where
  "ex_collision = \<lparr>tag_name = ''vv1.0.0'', draft = False, prerelease = False,
     published_at = ''2024-01-05T00:00:00Z'', body = None, assets = []\<rparr>"

definition ex_collision_env :: env where
  "ex_collision_env = ex_env\<lparr>manifest_response :=
     (\<lambda>tag. if tag = ''vv1.0.0'' then Http 200 ''9999eeee  scarb-v1.0.0-x86_64-linux.tar.gz''
            else ex_manifests tag)\<rparr>"


section \<open>Properties of the parsers\<close>

subsection \<open>Lines of a manifest\<close>








text \<open>
  Claim C2. Every line whose whitespace split has a number of tokens other than two is
  skipped without an error. The code does this for a line with no token or one token.
  For three or more tokens the guard \<open>len(parts) >= 2\<close> lets the line through and the
  assignment \<open>checksum, filename = parts\<close> raises \<open>ValueError\<close>, which \<open>parse_checksums\<close>
  does not catch: here on a manifest line with a third token.
\<close>

theorem parse_checksums_three_tokens_raises:
  "split_ws ''abcd1234 scarb-v1.2.3-x86_64-linux.tar.gz extra'' =
     [''abcd1234'', ''scarb-v1.2.3-x86_64-linux.tar.gz'', ''extra''] \<and>
   parse_checksums ''abcd1234 scarb-v1.2.3-x86_64-linux.tar.gz extra'' = Inl ValueError"
  by code_simp

text \<open>
  Claim C3. Cleaning the changelog body \<open>"before\n<!-- hidden -->\nafter  \n"\<close> is said to
  give \<open>"before\nafter"\<close>. It does not: \<open>re.sub\<close> removes the comment and leaves its line
  empty, and \<open>strip\<close> trims blank lines at the two ends of the text only.
\<close>

theorem process_changelog_example_counterexample:
  "process_changelog (Some ''before\<newline><!-- hidden -->\<newline>after  \<newline>'') \<noteq>
   Some ''before\<newline>after''"
  by code_simp

text \<open>
  Claim C3, amended. Cleaning the changelog body \<open>"before\n<!-- hidden -->\nafter  \n"\<close>
  gives \<open>"before\n\nafter"\<close>: the comment is removed, the trailing blanks of every line and
  the blank lines at the two ends are trimmed, and the line emptied by the removal stays
  between the two words.
\<close>

theorem process_changelog_example:
  "process_changelog (Some ''before\<newline><!-- hidden -->\<newline>after  \<newline>'') =
   Some ''before\<newline>\<newline>after''"
  by code_simp



section \<open>Properties of the merger\<close>

text \<open>
  Claim C10. The version key is the tag without all of its leading \<open>v\<close> characters, not
  only the first: a tag of \<open>n\<close> letters \<open>v\<close> followed by a rest that does not start with
  \<open>v\<close> has the rest as its key, so that \<open>v1.2.3\<close> and \<open>vv1.2.3\<close> have the same key \<open>1.2.3\<close>.
\<close>

theorem version_key_strips_every_v:
  "(\<forall>n rest. (rest = [] \<or> hd rest \<noteq> CHR ''v'') \<longrightarrow>
      version_key (replicate n CHR ''v'' @ rest) = rest) \<and>
   version_key ''v1.2.3'' = ''1.2.3'' \<and>
   version_key ''vv1.2.3'' = ''1.2.3''"
proof (intro conjI allI impI)
  fix n rest
  assume "rest = [] \<or> hd rest \<noteq> CHR ''v''"
  then show "version_key (replicate n CHR ''v'' @ rest) = rest"
    by (induction n) (auto simp: version_key_def lstrip_chars_def dropWhile_eq_self_iff)
qed (simp_all add: version_key_def lstrip_chars_def)

theorem version_key_strips_every_v_witness:
  "version_key (replicate 3 CHR ''v'' @ ''1.2.3'') = ''1.2.3''"
proof -
  have h: "''1.2.3'' = [] \<or> hd ''1.2.3'' \<noteq> CHR ''v''" by simp
  from version_key_strips_every_v h show ?thesis by blast
qed

subsection \<open>Steps of the loop\<close>

lemma process_release_draft:
  "draft r \<Longrightarrow> process_release e cur st r = Inr (st\<lparr>skipped_count := skipped_count st + 1\<rparr>)"
  by (simp add: process_release_def)

lemma process_release_other_key:
  "process_release e cur st r = Inr st' \<Longrightarrow> draft r \<or> version_key (tag_name r) \<noteq> k \<Longrightarrow>
   map_of (versions st') k = map_of (versions st) k"
  by (auto simp: process_release_def Let_def update_conv' split: if_splits sum.splits option.splits)

lemma process_releases_append:
  "process_releases e cur st (xs @ ys) =
     (case process_releases e cur st xs of
        Inl err \<Rightarrow> Inl err
      | Inr st' \<Rightarrow> process_releases e cur st' ys)"
  by (induction xs arbitrary: st) (auto split: sum.splits)

lemma process_releases_other_keys:
  "process_releases e cur st rs = Inr st' \<Longrightarrow>
   \<forall>r\<in>set rs. draft r \<or> version_key (tag_name r) \<noteq> k \<Longrightarrow>
   map_of (versions st') k = map_of (versions st) k"
proof (induction rs arbitrary: st)
  case Nil
  then show ?case by simp
next
  case (Cons r rs)
  from Cons.prems(1) obtain st1 where r: "process_release e cur st r = Inr st1"
    and rs: "process_releases e cur st1 rs = Inr st'"
    by (auto split: sum.splits)
  from Cons.prems(2) have "map_of (versions st1) k = map_of (versions st) k"
    by (intro process_release_other_key [OF r]) simp
  moreover from Cons.prems(2) have "map_of (versions st') k = map_of (versions st1) k"
    by (intro Cons.IH [OF rs]) simp
  ultimately show ?case by simp
qed

lemma process_release_skipped_mono:
  "process_release e cur st r = Inr st' \<Longrightarrow>
   skipped_count st + (if draft r then 1 else 0) \<le> skipped_count st'"
  by (auto simp: process_release_def Let_def split: if_splits sum.splits option.splits)

lemma process_releases_skipped:
  "process_releases e cur st rs = Inr st' \<Longrightarrow>
   skipped_count st + length (filter draft rs) \<le> skipped_count st'"
proof (induction rs arbitrary: st)
  case Nil
  then show ?case by simp
next
  case (Cons r rs)
  from Cons.prems obtain st1 where r: "process_release e cur st r = Inr st1"
    and rs: "process_releases e cur st1 rs = Inr st'"
    by (auto split: sum.splits)
  from process_release_skipped_mono [OF r] Cons.IH [OF rs] show ?case
    by (simp split: if_splits)
qed

lemma cached_record_hit:
  assumes "py_getitem cur key = Inr stored"
    and "py_getitem stored ''metadata'' = Inr metadata"
    and "py_getitem metadata ''releaseDate'' = Inr (JStr date)"
  shows "cached_record cur key date = Inr (Some stored)"
proof -
  from assms(1) have "py_contains cur key = Inr True"
    by (cases cur) (auto split: option.splits)
  with assms show ?thesis by (simp add: cached_record_def)
qed

text \<open>
  Claim C1. For a release that is not a draft and is not served from the stored record,
  a manifest fetched successfully is said to give a fresh record even when the parsed
  mapping is empty. The code tests \<open>if checksums:\<close>, which is false for the empty dict as
  well as for \<open>None\<close>: the release \<open>v0.9.0\<close> of the example, whose manifest is fetched with
  status 200 and is empty, is skipped.
\<close>

theorem empty_manifest_is_skipped:
  "\<not> draft ex_empty \<and>
   cached_record (JObj []) (version_key (tag_name ex_empty)) (published_at ex_empty) = Inr None \<and>
   manifest_response ex_env (tag_name ex_empty) = Http 200 '''' \<and>
   \<not> raise_for_status 200 \<and>
   parse_checksums '''' = Inr [] \<and>
   get_version_checksums ex_env (tag_name ex_empty) = Inr (Some []) \<and>
   process_release ex_env (JObj []) initial_state ex_empty =
     Inr \<lparr>versions = [], processed_count = 0, skipped_count = 1, resolver_calls = [''v0.9.0'']\<rparr>"
  by code_simp

text \<open>
  Claim C1, amended. For a release that is not a draft and is not served from the stored
  record, the resolver is called once, and
  \<^item> if the manifest is fetched and the parsed mapping is not empty, the fresh record is
    stored under the version key and the release is counted as processed;
  \<^item> if the manifest is fetched and the parsed mapping is empty, the release is skipped;
  \<^item> if the fetch fails (no response, or a status from 400 to 599), the release is skipped.
\<close>

theorem fresh_record_needs_checksums:
  assumes "\<not> draft r"
    and "cached_record current_versions (version_key (tag_name r)) (published_at r) = Inr None"
  shows
   "(\<forall>status text checksums.
       manifest_response e (tag_name r) = Http status text \<and> \<not> raise_for_status status \<and>
       parse_checksums text = Inr checksums \<and> checksums \<noteq> [] \<longrightarrow>
       process_release e current_versions st r =
         Inr (st\<lparr>versions := AList.update (version_key (tag_name r)) (fresh_record r checksums) (versions st),
                 processed_count := processed_count st + 1,
                 resolver_calls := resolver_calls st @ [tag_name r]\<rparr>)) \<and>
    (\<forall>status text.
       manifest_response e (tag_name r) = Http status text \<and> \<not> raise_for_status status \<and>
       parse_checksums text = Inr [] \<longrightarrow>
       process_release e current_versions st r =
         Inr (st\<lparr>skipped_count := skipped_count st + 1,
                 resolver_calls := resolver_calls st @ [tag_name r]\<rparr>)) \<and>
    (manifest_response e (tag_name r) = Transport_error \<or>
     (\<exists>status text. manifest_response e (tag_name r) = Http status text \<and> raise_for_status status) \<longrightarrow>
       process_release e current_versions st r =
         Inr (st\<lparr>skipped_count := skipped_count st + 1,
                 resolver_calls := resolver_calls st @ [tag_name r]\<rparr>))"
  using assms
  by (auto simp: process_release_def get_version_checksums_def Let_def)

theorem fresh_record_needs_checksums_witness:
  "process_release ex_env (JObj []) initial_state ex_release =
     Inr \<lparr>versions = [(''1.0.0'', fresh_record ex_release [(''x86_64-linux'', ''abcd1234'')])],
          processed_count = 1, skipped_count = 0, resolver_calls = [''v1.0.0'']\<rparr> \<and>
   process_release ex_env (JObj []) initial_state ex_empty =
     Inr \<lparr>versions = [], processed_count = 0, skipped_count = 1,
          resolver_calls = [''v0.9.0'']\<rparr> \<and>
   process_release ex_env (JObj []) initial_state ex_missing =
     Inr \<lparr>versions = [], processed_count = 0, skipped_count = 1,
          resolver_calls = [''v0.8.0'']\<rparr>"
proof -
  have d1: "\<not> draft ex_release" and d2: "\<not> draft ex_empty" and d3: "\<not> draft ex_missing"
    by (simp_all add: ex_release_def ex_empty_def ex_missing_def)
  have c1: "cached_record (JObj []) (version_key (tag_name ex_release)) (published_at ex_release) = Inr None"
    and c2: "cached_record (JObj []) (version_key (tag_name ex_empty)) (published_at ex_empty) = Inr None"
    and c3: "cached_record (JObj []) (version_key (tag_name ex_missing)) (published_at ex_missing) = Inr None"
    by (simp_all add: cached_record_def)
  have m1: "manifest_response ex_env (tag_name ex_release) =
              Http 200 ''abcd1234  scarb-v1.0.0-x86_64-linux.tar.gz'' \<and> \<not> raise_for_status 200 \<and>
            parse_checksums ''abcd1234  scarb-v1.0.0-x86_64-linux.tar.gz'' =
              Inr [(''x86_64-linux'', ''abcd1234'')] \<and>
            [(''x86_64-linux'', ''abcd1234'')] \<noteq> ([] :: checksums)"
    by code_simp
  have m2: "manifest_response ex_env (tag_name ex_empty) = Http 200 '''' \<and>
            \<not> raise_for_status 200 \<and> parse_checksums '''' = Inr []"
    by code_simp
  have m3: "manifest_response ex_env (tag_name ex_missing) = Http 404 ''Not Found'' \<and>
            raise_for_status 404"
    by code_simp
  from fresh_record_needs_checksums [OF d1 c1, of ex_env initial_state] m1
  have "process_release ex_env (JObj []) initial_state ex_release =
         Inr (initial_state\<lparr>versions := AList.update (version_key (tag_name ex_release))
                   (fresh_record ex_release [(''x86_64-linux'', ''abcd1234'')]) (versions initial_state),
                 processed_count := processed_count initial_state + 1,
                 resolver_calls := resolver_calls initial_state @ [tag_name ex_release]\<rparr>)"
    by blast
  then have r1: "process_release ex_env (JObj []) initial_state ex_release =
     Inr \<lparr>versions = [(''1.0.0'', fresh_record ex_release [(''x86_64-linux'', ''abcd1234'')])],
          processed_count = 1, skipped_count = 0, resolver_calls = [''v1.0.0'']\<rparr>"
    by (simp add: initial_state_def version_key_def lstrip_chars_def ex_release_def)
  from fresh_record_needs_checksums [OF d2 c2, of ex_env initial_state] m2
  have "process_release ex_env (JObj []) initial_state ex_empty =
         Inr (initial_state\<lparr>skipped_count := skipped_count initial_state + 1,
                 resolver_calls := resolver_calls initial_state @ [tag_name ex_empty]\<rparr>)"
    by blast
  then have r2: "process_release ex_env (JObj []) initial_state ex_empty =
     Inr \<lparr>versions = [], processed_count = 0, skipped_count = 1,
          resolver_calls = [''v0.9.0'']\<rparr>"
    by (simp add: initial_state_def ex_empty_def)
  from fresh_record_needs_checksums [OF d3 c3, of ex_env initial_state] m3
  have "process_release ex_env (JObj []) initial_state ex_missing =
         Inr (initial_state\<lparr>skipped_count := skipped_count initial_state + 1,
                 resolver_calls := resolver_calls initial_state @ [tag_name ex_missing]\<rparr>)"
    by blast
  then have r3: "process_release ex_env (JObj []) initial_state ex_missing =
     Inr \<lparr>versions = [], processed_count = 0, skipped_count = 1,
          resolver_calls = [''v0.8.0'']\<rparr>"
    by (simp add: initial_state_def ex_missing_def)
  from r1 r2 r3 show ?thesis by blast
qed

lemma cached_record_stored:
  assumes "py_getitem cur key = Inr stored"
    and "py_getitem stored ''metadata'' = Inr metadata"
    and "py_getitem metadata ''releaseDate'' = Inr (JStr date)"
  shows "cached_record cur key d = (if d = date then Inr (Some stored) else Inr None)"
proof -
  from assms(1) have "py_contains cur key = Inr True"
    by (cases cur) (auto split: option.splits)
  with assms show ?thesis by (simp add: cached_record_def)
qed

text \<open>
  A later release leaves a reused record in place if it is a draft, has another key, has
  the same date (it is then served from the stored record too) or resolves no checksums.
\<close>

lemma process_release_keeps_stored:
  assumes stored: "py_getitem cur key = Inr stored"
      "py_getitem stored ''metadata'' = Inr metadata"
      "py_getitem metadata ''releaseDate'' = Inr (JStr date)"
    and step: "process_release e cur st r = Inr st'"
    and harmless: "draft r \<or> version_key (tag_name r) \<noteq> key \<or> published_at r = date \<or>
      get_version_checksums e (tag_name r) = Inr None \<or>
      get_version_checksums e (tag_name r) = Inr (Some [])"
    and before: "map_of (versions st) key = Some stored"
  shows "map_of (versions st') key = Some stored"
proof (cases "draft r \<or> version_key (tag_name r) \<noteq> key")
  case True
  from process_release_other_key [OF step True] before show ?thesis by simp
next
  case False
  then have nd: "\<not> draft r" and k: "version_key (tag_name r) = key" by simp_all
  note c = cached_record_stored [OF stored, of "published_at r"]
  show ?thesis
  proof (cases "published_at r = date")
    case True
    with step nd k c have "versions st' = AList.update key stored (versions st)"
      by (auto simp: process_release_def)
    then show ?thesis by (simp add: update_conv')
  next
    case False
    with harmless nd k have "get_version_checksums e (tag_name r) = Inr None \<or>
      get_version_checksums e (tag_name r) = Inr (Some [])"
      by simp
    with step nd k c False have "versions st' = versions st"
      by (auto simp: process_release_def Let_def)
    with before show ?thesis by simp
  qed
qed

lemma process_releases_keep_stored:
  assumes stored: "py_getitem cur key = Inr stored"
      "py_getitem stored ''metadata'' = Inr metadata"
      "py_getitem metadata ''releaseDate'' = Inr (JStr date)"
  shows "process_releases e cur st rs = Inr st' \<Longrightarrow>
         \<forall>r\<in>set rs. draft r \<or> version_key (tag_name r) \<noteq> key \<or> published_at r = date \<or>
            get_version_checksums e (tag_name r) = Inr None \<or>
            get_version_checksums e (tag_name r) = Inr (Some []) \<Longrightarrow>
         map_of (versions st) key = Some stored \<Longrightarrow>
         map_of (versions st') key = Some stored"
proof (induction rs arbitrary: st)
  case Nil
  then show ?case by simp
next
  case (Cons r rs)
  from Cons.prems(1) obtain st1 where r: "process_release e cur st r = Inr st1"
    and rs: "process_releases e cur st1 rs = Inr st'"
    by (auto split: sum.splits)
  from Cons.prems(2) have "draft r \<or> version_key (tag_name r) \<noteq> key \<or> published_at r = date \<or>
      get_version_checksums e (tag_name r) = Inr None \<or>
      get_version_checksums e (tag_name r) = Inr (Some [])"
    by simp
  from process_release_keeps_stored [OF stored r this Cons.prems(3)]
  have "map_of (versions st1) key = Some stored" .
  moreover from Cons.prems(2) have "\<forall>r\<in>set rs. draft r \<or> version_key (tag_name r) \<noteq> key \<or>
      published_at r = date \<or> get_version_checksums e (tag_name r) = Inr None \<or>
      get_version_checksums e (tag_name r) = Inr (Some [])"
    by simp
  ultimately show ?case using rs by (intro Cons.IH)
qed

text \<open>
  Claim C4. The stored record of every release that is served from the previously
  persisted record is said to be reused in the output, without a call of the resolver.
  The resolver is not called, but the record need not be in the output: the key is the tag
  without its leading \<open>v\<close>s, and a later release with the same key replaces it. The release
  \<open>v1.0.0\<close> is served from the stored record, the resolver is called for \<open>vv1.0.0\<close> only, and
  the output holds the fresh record of \<open>vv1.0.0\<close> under the key \<open>1.0.0\<close>.
\<close>

theorem reused_record_replaced_by_colliding_release:
  "\<not> draft ex_release \<and>
   py_getitem ex_current (version_key (tag_name ex_release)) = Inr ex_stored \<and>
   py_getitem ex_stored ''metadata'' =
     Inr (JObj [(''releaseDate'', JStr ''2024-01-01T00:00:02Z''), (''note'', JStr ''kept as stored'')]) \<and>
   py_getitem (JObj [(''releaseDate'', JStr ''2024-01-01T00:00:02Z''), (''note'', JStr ''kept as stored'')])
     ''releaseDate'' = Inr (JStr (published_at ex_release)) \<and>
   process_releases ex_collision_env ex_current initial_state [ex_release, ex_collision] =
     Inr \<lparr>versions = [(''1.0.0'', fresh_record ex_collision [(''x86_64-linux'', ''9999eeee'')])],
          processed_count = 2, skipped_count = 0, resolver_calls = [''vv1.0.0'']\<rparr> \<and>
   fresh_record ex_collision [(''x86_64-linux'', ''9999eeee'')] \<noteq> ex_stored"
  by code_simp

text \<open>
  Claim C4, amended. For a release that is not a draft, whose version key is in the
  previously persisted record and whose stored \<open>['metadata']['releaseDate']\<close> equals its
  \<open>published_at\<close>, the step of the loop stores the stored record itself under the version
  key, counts the release as processed and does not call the resolver. The stored record
  is the entry of the key in the output of every run that completes, unless a later
  release that is not a draft has the same version key, another \<open>published_at\<close> and a
  checksum mapping that is not empty.
\<close>

theorem cache_hit_reuses_stored_record:
  assumes "\<not> draft r"
    and "py_getitem current_versions (version_key (tag_name r)) = Inr stored"
    and "py_getitem stored ''metadata'' = Inr metadata"
    and "py_getitem metadata ''releaseDate'' = Inr (JStr (published_at r))"
  shows
   "process_release e current_versions st r =
      Inr (st\<lparr>versions := AList.update (version_key (tag_name r)) stored (versions st),
              processed_count := processed_count st + 1\<rparr>) \<and>
    (\<forall>st'. process_release e current_versions st r = Inr st' \<longrightarrow>
       resolver_calls st' = resolver_calls st \<and>
       map_of (versions st') (version_key (tag_name r)) = Some stored) \<and>
    (\<forall>before after st0 st'.
       process_releases e current_versions st0 (before @ r # after) = Inr st' \<and>
       (\<forall>r'\<in>set after. draft r' \<or> version_key (tag_name r') \<noteq> version_key (tag_name r) \<or>
          published_at r' = published_at r \<or>
          get_version_checksums e (tag_name r') = Inr None \<or>
          get_version_checksums e (tag_name r') = Inr (Some [])) \<longrightarrow>
       map_of (versions st') (version_key (tag_name r)) = Some stored)"
proof -
  have hit: "cached_record current_versions (version_key (tag_name r)) (published_at r) = Inr (Some stored)"
    using assms(2-4) by (rule cached_record_hit)
  have step: "process_release e current_versions s r =
      Inr (s\<lparr>versions := AList.update (version_key (tag_name r)) stored (versions s),
              processed_count := processed_count s + 1\<rparr>)" for s
    using assms(1) hit by (simp add: process_release_def)
  have run: "map_of (versions st') (version_key (tag_name r)) = Some stored"
    if run: "process_releases e current_versions st0 (before @ r # after) = Inr st'"
      and others: "\<forall>r'\<in>set after. draft r' \<or> version_key (tag_name r') \<noteq> version_key (tag_name r) \<or>
          published_at r' = published_at r \<or>
          get_version_checksums e (tag_name r') = Inr None \<or>
          get_version_checksums e (tag_name r') = Inr (Some [])"
    for before after st0 st'
  proof -
    from run obtain st1 where
      rest: "process_releases e current_versions
               (st1\<lparr>versions := AList.update (version_key (tag_name r)) stored (versions st1),
                    processed_count := processed_count st1 + 1\<rparr>) after = Inr st'"
      by (auto simp: process_releases_append step split: sum.splits)
    from process_releases_keep_stored [OF assms(2-4) rest others] show ?thesis
      by (simp add: update_conv')
  qed
  from step [of st] run show ?thesis
    by (simp add: update_conv') blast
qed

theorem cache_hit_reuses_stored_record_witness:
  "process_release ex_env ex_current initial_state ex_release =
     Inr \<lparr>versions = [(''1.0.0'', ex_stored)], processed_count = 1, skipped_count = 0,
          resolver_calls = []\<rparr> \<and>
   process_releases ex_env ex_current initial_state ([ex_draft] @ ex_release # [ex_collision, ex_empty]) =
     Inr \<lparr>versions = [(''1.0.0'', ex_stored)], processed_count = 1, skipped_count = 3,
          resolver_calls = [''vv1.0.0'', ''v0.9.0'']\<rparr> \<and>
   map_of (versions \<lparr>versions = [(''1.0.0'', ex_stored)], processed_count = 1, skipped_count = 3,
                     resolver_calls = [''vv1.0.0'', ''v0.9.0'']\<rparr>)
     (version_key (tag_name ex_release)) = Some ex_stored"
proof -
  have d: "\<not> draft ex_release"
    by (simp add: ex_release_def)
  have s: "py_getitem ex_current (version_key (tag_name ex_release)) = Inr ex_stored"
    by (simp add: ex_current_def ex_release_def version_key_def lstrip_chars_def)
  have m: "py_getitem ex_stored ''metadata'' =
             Inr (JObj [(''releaseDate'', JStr ''2024-01-01T00:00:02Z''), (''note'', JStr ''kept as stored'')])"
    by (simp add: ex_stored_def)
  have t: "py_getitem (JObj [(''releaseDate'', JStr ''2024-01-01T00:00:02Z''), (''note'', JStr ''kept as stored'')])
             ''releaseDate'' = Inr (JStr (published_at ex_release))"
    by (simp add: ex_release_def)
  note c4 = cache_hit_reuses_stored_record [OF d s m t, of ex_env initial_state]
  from c4
  have "process_release ex_env ex_current initial_state ex_release =
      Inr (initial_state\<lparr>versions := AList.update (version_key (tag_name ex_release)) ex_stored (versions initial_state),
              processed_count := processed_count initial_state + 1\<rparr>)"
    by blast
  then have step: "process_release ex_env ex_current initial_state ex_release =
     Inr \<lparr>versions = [(''1.0.0'', ex_stored)], processed_count = 1, skipped_count = 0,
          resolver_calls = []\<rparr>"
    by (simp add: initial_state_def version_key_def lstrip_chars_def ex_release_def)
  have run: "process_releases ex_env ex_current initial_state ([ex_draft] @ ex_release # [ex_collision, ex_empty]) =
     Inr \<lparr>versions = [(''1.0.0'', ex_stored)], processed_count = 1, skipped_count = 3,
          resolver_calls = [''vv1.0.0'', ''v0.9.0'']\<rparr>"
    by code_simp
  have later: "\<forall>r'\<in>set [ex_collision, ex_empty].
      draft r' \<or> version_key (tag_name r') \<noteq> version_key (tag_name ex_release) \<or>
      published_at r' = published_at ex_release \<or>
      get_version_checksums ex_env (tag_name r') = Inr None \<or>
      get_version_checksums ex_env (tag_name r') = Inr (Some [])"
    by code_simp
  from c4 run later
  have "map_of (versions \<lparr>versions = [(''1.0.0'', ex_stored)], processed_count = 1, skipped_count = 3,
                     resolver_calls = [''vv1.0.0'', ''v0.9.0'']\<rparr>)
     (version_key (tag_name ex_release)) = Some ex_stored"
    by blast
  with step run show ?thesis by blast
qed

text \<open>
  Claim C5. The version of a draft is said never to be a key of the output. The key is
  the tag without its leading \<open>v\<close>s, so another release can have the same key: the draft
  with the tag \<open>1.0.0\<close> is skipped, and the release \<open>v1.0.0\<close> puts the key \<open>1.0.0\<close> into
  the output.
\<close>

theorem draft_with_colliding_release:
  "draft ex_draft \<and> version_key (tag_name ex_draft) = ''1.0.0'' \<and>
   process_releases ex_env (JObj []) initial_state [ex_draft, ex_release] =
     Inr \<lparr>versions = [(''1.0.0'', fresh_record ex_release [(''x86_64-linux'', ''abcd1234'')])],
          processed_count = 1, skipped_count = 1, resolver_calls = [''v1.0.0'']\<rparr>"
  by code_simp

text \<open>
  Claim C5, amended. A draft adds no entry, whatever the previously persisted record
  holds: its step leaves the mapping as it is and adds one to the count of skipped
  releases. In a run that completes, the version key of a draft is not a key of the
  output unless a release that is not a draft has the same key, and the count of skipped
  releases is at least the number of drafts.
\<close>

theorem draft_adds_no_entry:
  "(\<forall>e current_versions st r. draft r \<longrightarrow>
      process_release e current_versions st r = Inr (st\<lparr>skipped_count := skipped_count st + 1\<rparr>)) \<and>
   (\<forall>e current_versions rs st' r.
      process_releases e current_versions initial_state rs = Inr st' \<and> r \<in> set rs \<and> draft r \<and>
      (\<forall>r'\<in>set rs. version_key (tag_name r') = version_key (tag_name r) \<longrightarrow> draft r') \<longrightarrow>
      map_of (versions st') (version_key (tag_name r)) = None \<and>
      length (filter draft rs) \<le> skipped_count st')"
proof (intro conjI allI impI)
  fix e current_versions st and r :: release
  assume "draft r"
  then show "process_release e current_versions st r = Inr (st\<lparr>skipped_count := skipped_count st + 1\<rparr>)"
    by (rule process_release_draft)
next
  fix e current_versions rs st' and r :: release
  assume h: "process_releases e current_versions initial_state rs = Inr st' \<and> r \<in> set rs \<and> draft r \<and>
      (\<forall>r'\<in>set rs. version_key (tag_name r') = version_key (tag_name r) \<longrightarrow> draft r')"
  then have run: "process_releases e current_versions initial_state rs = Inr st'"
    and others: "\<forall>r'\<in>set rs. draft r' \<or> version_key (tag_name r') \<noteq> version_key (tag_name r)"
    by blast+
  have "map_of (versions st') (version_key (tag_name r)) =
        map_of (versions initial_state) (version_key (tag_name r))"
    using run others by (rule process_releases_other_keys)
  then show "map_of (versions st') (version_key (tag_name r)) = None"
    by (simp add: initial_state_def)
  from h process_releases_skipped [of e current_versions initial_state rs st']
  show "length (filter draft rs) \<le> skipped_count st'"
    by (simp add: initial_state_def)
qed

theorem draft_adds_no_entry_witness:
  "process_release ex_env ex_current initial_state ex_draft =
     Inr \<lparr>versions = [], processed_count = 0, skipped_count = 1, resolver_calls = []\<rparr> \<and>
   map_of (versions \<lparr>versions = [], processed_count = 0, skipped_count = 3,
                         resolver_calls = [''v0.9.0'', ''v0.8.0'']\<rparr>) ''1.0.0'' = None \<and>
   length (filter draft [ex_draft, ex_empty, ex_missing]) \<le> 3"
proof -
  have d: "draft ex_draft"
    by (simp add: ex_draft_def)
  have run: "process_releases ex_env ex_current initial_state [ex_draft, ex_empty, ex_missing] =
     Inr \<lparr>versions = [], processed_count = 0, skipped_count = 3,
          resolver_calls = [''v0.9.0'', ''v0.8.0'']\<rparr>"
    by code_simp
  have others: "\<forall>r'\<in>set [ex_draft, ex_empty, ex_missing].
      version_key (tag_name r') = version_key (tag_name ex_draft) \<longrightarrow> draft r'"
    by (simp add: ex_draft_def ex_empty_def ex_missing_def version_key_def lstrip_chars_def)
  have mem: "ex_draft \<in> set [ex_draft, ex_empty, ex_missing]"
    by simp
  from draft_adds_no_entry d
  have "process_release ex_env ex_current initial_state ex_draft =
        Inr (initial_state\<lparr>skipped_count := skipped_count initial_state + 1\<rparr>)"
    by blast
  then have step: "process_release ex_env ex_current initial_state ex_draft =
     Inr \<lparr>versions = [], processed_count = 0, skipped_count = 1, resolver_calls = []\<rparr>"
    by (simp add: initial_state_def)
  from draft_adds_no_entry run mem d others
  have "map_of (versions \<lparr>versions = [], processed_count = 0, skipped_count = 3,
                         resolver_calls = [''v0.9.0'', ''v0.8.0'']\<rparr>)
          (version_key (tag_name ex_draft)) = None \<and>
        length (filter draft [ex_draft, ex_empty, ex_missing]) \<le>
          skipped_count \<lparr>versions = [], processed_count = 0, skipped_count = 3,
                         resolver_calls = [''v0.9.0'', ''v0.8.0'']\<rparr>"
    by blast
  with step show ?thesis
    by (simp add: ex_draft_def version_key_def lstrip_chars_def)
qed

section \<open>Properties of the run\<close>

subsection \<open>The backup path and the written text\<close>








lemma with_suffix_versions_path:
  "with_suffix versions_path (backup_suffix t) = Inr [''versions'', ''versions.json.bak-'' @ strftime t]"
  by (simp add: with_suffix_def versions_path_def path_name_def path_suffix_def rfind_dot_def backup_suffix_def Let_def)



lemma fetch_failure:
  "releases_response e = Transport_error \<or>
   (\<exists>status decoded. releases_response e = Http status decoded \<and> raise_for_status status) \<Longrightarrow>
   fetch_releases e = Inl RequestException"
  by (auto simp: fetch_releases_def)

text \<open>
  Claim C6. If the fetch of the release list fails, because the request fails or the
  status is one for which \<open>raise_for_status\<close> raises (400 to 599), \<open>fetch_releases\<close>
  raises, \<open>update_versions_file\<close> passes an exception on without renaming or writing a
  file, and the process exits with status 1: the file system, and with it the versions
  file, is as it was.
\<close>

theorem release_list_failure_aborts:
  assumes "releases_response e = Transport_error \<or>
   (\<exists>status decoded. releases_response e = Http status decoded \<and> raise_for_status status)"
  shows "fetch_releases e = Inl RequestException \<and>
         (\<exists>err. update_versions_file e fs versions_path = (Inl err, fs)) \<and>
         main e fs = (1, fs)"
proof -
  from assms have f: "fetch_releases e = Inl RequestException" by (rule fetch_failure)
  then have u: "\<exists>err. update_versions_file e fs versions_path = (Inl err, fs)"
    by (simp add: update_versions_file_def Let_def split: sum.splits)
  then have "main e fs = (1, fs)"
    by (auto simp: main_def)
  with f u show ?thesis by blast
qed

theorem release_list_failure_aborts_witness:
  "main (ex_env\<lparr>releases_response := Transport_error\<rparr>) ex_fs = (1, ex_fs) \<and>
   main (ex_env\<lparr>releases_response := Http 503 None\<rparr>) ex_fs = (1, ex_fs) \<and>
   main (ex_env\<lparr>releases_response := Http 404 (Some [ex_release])\<rparr>) ex_fs = (1, ex_fs)"
proof -
  have a: "releases_response (ex_env\<lparr>releases_response := Transport_error\<rparr>) = Transport_error \<or>
    (\<exists>status decoded. releases_response (ex_env\<lparr>releases_response := Transport_error\<rparr>) = Http status decoded \<and>
       raise_for_status status)"
    by simp
  have "raise_for_status 503" "raise_for_status 404"
    by (simp_all add: raise_for_status_def)
  then have b: "releases_response (ex_env\<lparr>releases_response := Http 503 None\<rparr>) = Transport_error \<or>
    (\<exists>status decoded. releases_response (ex_env\<lparr>releases_response := Http 503 None\<rparr>) = Http status decoded \<and>
       raise_for_status status)"
    and c: "releases_response (ex_env\<lparr>releases_response := Http 404 (Some [ex_release])\<rparr>) = Transport_error \<or>
    (\<exists>status decoded. releases_response (ex_env\<lparr>releases_response := Http 404 (Some [ex_release])\<rparr>) = Http status decoded \<and>
       raise_for_status status)"
    by simp_all
  from release_list_failure_aborts [OF a, of ex_fs]
       release_list_failure_aborts [OF b, of ex_fs]
       release_list_failure_aborts [OF c, of ex_fs]
  show ?thesis by blast
qed





section \<open>Two runs in succession\<close>

subsection \<open>Documents up to the order of their entries\<close>

lemma insort_key_map_value:
  "insort_key fst (k, f v) (map (\<lambda>(k, v). (k, f v)) xs) =
   map (\<lambda>(k, v). (k, f v)) (insort_key fst (k, v) xs)"
  by (induction xs) (auto split: prod.splits)

lemma sorted_items_map_value:
  "sorted_items (map (\<lambda>(k, v). (k, f v)) kvs) = map (\<lambda>(k, v). (k, f v)) (sorted_items kvs)"
  by (induction kvs) (auto simp: sorted_items_def insort_key_map_value split: prod.splits)

lemma sorted_items_idem: "sorted_items (sorted_items kvs) = sorted_items kvs"
  by (simp add: sorted_items_def sort_key_id_if_sorted)

lemma set_sorted_items: "set (sorted_items kvs) = set kvs"
  by (simp add: sorted_items_def)

lemma sorted_items_Nil: "sorted_items kvs = [] \<longleftrightarrow> kvs = []"
  by (metis set_sorted_items set_empty)

lemma encode_key_sorted: "encode level (key_sorted v) = encode level v"
proof (induction v arbitrary: level)
  case (JArr xs)
  then have "map (encode (Suc level)) (map key_sorted xs) = map (encode (Suc level)) xs"
    by simp
  then show ?case by (simp del: map_map)
next
  case (JObj kvs)
  let ?item = "\<lambda>(k, v). encode_str k @ '': '' @ encode (Suc level) v"
  have "map ?item (sorted_items (sorted_items (map (\<lambda>(k, v). (k, key_sorted v)) kvs))) =
        map ?item (map (\<lambda>(k, v). (k, key_sorted v)) (sorted_items kvs))"
    by (simp only: sorted_items_idem sorted_items_map_value)
  also have "\<dots> = map ?item (sorted_items kvs)"
    using JObj by (auto simp: set_sorted_items)
  finally show ?case by (simp add: sorted_items_Nil del: map_map)
qed simp_all

lemma key_sorted_idem: "key_sorted (key_sorted v) = key_sorted v"
proof (induction v)
  case (JObj kvs)
  let ?g = "\<lambda>(k, v). (k, key_sorted v)"
  have "sorted_items (map ?g (sorted_items (map ?g kvs))) =
        map ?g (map ?g (sorted_items kvs))"
    by (simp only: sorted_items_idem sorted_items_map_value)
  also have "\<dots> = map ?g (sorted_items kvs)"
    using JObj by (auto simp: set_sorted_items)
  also have "\<dots> = sorted_items (map ?g kvs)"
    by (simp only: sorted_items_map_value)
  finally show ?case by (simp del: map_map)
qed simp_all

lemma map_of_first:
  "map_of xs k = (case filter (\<lambda>y. fst y = k) xs of [] \<Rightarrow> None | y # _ \<Rightarrow> Some (snd y))"
  by (induction xs) auto

lemma map_of_sorted_items: "map_of (sorted_items kvs) k = map_of kvs k"
proof -
  have "filter (\<lambda>y. fst y = k) (sorted_items kvs) = filter (\<lambda>y. fst y = k) kvs"
    unfolding sorted_items_def by (rule sort_key_stable)
  then show ?thesis
    by (simp only: map_of_first [of "sorted_items kvs"] map_of_first [of kvs])
qed

lemma map_of_key_sorted:
  "map_of (sorted_items (map (\<lambda>(k, v). (k, key_sorted v)) kvs)) k =
   map_option key_sorted (map_of kvs k)"
  by (simp add: map_of_sorted_items map_of_map)

lemma py_getitem_key_sorted:
  "py_getitem (key_sorted v) k =
     (case py_getitem v k of Inl e \<Rightarrow> Inl e | Inr x \<Rightarrow> Inr (key_sorted x))"
  by (cases v) (auto simp: map_of_key_sorted split: option.splits)

lemma key_sorted_JStr: "key_sorted v = JStr d \<longleftrightarrow> v = JStr d"
  by (cases v) auto

lemma sorted_items_unique:
  assumes "distinct (map fst xs)" "distinct (map fst ys)" "map_of xs = map_of ys"
  shows "sorted_items xs = sorted_items ys"
proof -
  from assms have s: "set xs = set ys"
    by (simp add: map_of_inject_set)
  from assms(1) have "inj_on fst (set xs)"
    by (simp add: distinct_map)
  with s have "inj_on fst (set (sorted_items xs) \<union> set (sorted_items ys))"
    by (simp add: set_sorted_items)
  moreover have "sorted (map fst (sorted_items xs))"
    by (simp add: sorted_items_def)
  moreover from assms(1) have "distinct (map fst (sorted_items xs))"
    by (simp add: sorted_items_def distinct_map)
  moreover have "sorted (map fst (sorted_items ys))"
    by (simp add: sorted_items_def)
  moreover from assms(2) have "distinct (map fst (sorted_items ys))"
    by (simp add: sorted_items_def distinct_map)
  moreover from s have "set (sorted_items xs) = set (sorted_items ys)"
    by (simp add: set_sorted_items)
  ultimately show ?thesis
    by (rule map_sorted_distinct_set_unique)
qed

lemma json_dumps_same:
  assumes "distinct (map fst xs)" "distinct (map fst ys)"
    and "\<And>k. map_option key_sorted (map_of xs k) = map_option key_sorted (map_of ys k)"
  shows "json_dumps (JObj xs) = json_dumps (JObj ys)"
proof -
  let ?g = "\<lambda>(k, v). (k, key_sorted v)"
  have f: "map fst (map ?g zs) = map fst zs" for zs :: "(string \<times> json) list"
    by (induction zs) auto
  have "map_of (map ?g xs) = map_of (map ?g ys)"
    using assms(3) by (auto simp: map_of_map fun_eq_iff)
  with assms(1,2) have "sorted_items (map ?g xs) = sorted_items (map ?g ys)"
    by (intro sorted_items_unique) (simp_all only: f)
  then have "key_sorted (JObj xs) = key_sorted (JObj ys)"
    by simp
  then have "encode 0 (key_sorted (JObj xs)) = encode 0 (key_sorted (JObj ys))"
    by (rule arg_cong)
  then show ?thesis
    by (simp only: encode_key_sorted json_dumps_def)
qed

subsection \<open>The loop over the record of a first run\<close>

lemma process_release_effect:
  assumes "process_release e cur st r = Inr st'"
  shows "\<exists>w. effect e cur r = Inr w \<and>
             versions st' = (case w of None \<Rightarrow> versions st
                             | Some v \<Rightarrow> AList.update (version_key (tag_name r)) v (versions st))"
  using assms
  by (auto simp: process_release_def effect_def fetched_record_def Let_def
           split: if_splits sum.splits option.splits)

lemma process_release_lookup:
  assumes "process_release e cur st r = Inr st'"
  shows "\<exists>w. effect e cur r = Inr w \<and>
             map_of (versions st') k =
               (if version_key (tag_name r) = k
                then (case w of None \<Rightarrow> map_of (versions st) k | Some v \<Rightarrow> Some v)
                else map_of (versions st) k)"
proof -
  from process_release_effect [OF assms] obtain w where
    w: "effect e cur r = Inr w"
    and v: "versions st' = (case w of None \<Rightarrow> versions st
                            | Some v \<Rightarrow> AList.update (version_key (tag_name r)) v (versions st))"
    by blast
  from v have "map_of (versions st') k =
               (if version_key (tag_name r) = k
                then (case w of None \<Rightarrow> map_of (versions st) k | Some v \<Rightarrow> Some v)
                else map_of (versions st) k)"
    by (cases w) (simp_all add: update_conv')
  with w show ?thesis by blast
qed

lemma process_release_distinct:
  assumes "process_release e cur st r = Inr st'" "distinct (map fst (versions st))"
  shows "distinct (map fst (versions st'))"
proof -
  from process_release_effect [OF assms(1)] obtain w where
    "versions st' = (case w of None \<Rightarrow> versions st
                     | Some v \<Rightarrow> AList.update (version_key (tag_name r)) v (versions st))"
    by blast
  with assms(2) show ?thesis
    by (cases w) (simp_all add: distinct_update)
qed

lemma process_releases_distinct:
  "process_releases e cur st rs = Inr st' \<Longrightarrow> distinct (map fst (versions st)) \<Longrightarrow>
   distinct (map fst (versions st'))"
proof (induction rs arbitrary: st)
  case Nil
  then show ?case by simp
next
  case (Cons r rs)
  from Cons.prems(1) obtain st1 where r: "process_release e cur st r = Inr st1"
    and rs: "process_releases e cur st1 rs = Inr st'"
    by (auto split: sum.splits)
  from process_release_distinct [OF r Cons.prems(2)] Cons.IH [OF rs] show ?case by blast
qed

lemma cached_record_dated:
  "cached_record cur k d = Inr (Some v) \<Longrightarrow> dated v d"
  by (auto simp: cached_record_def dated_def split: sum.splits bool.splits if_splits)

lemma fresh_record_dated: "dated (fresh_record r checksums) (published_at r)"
  by (simp add: dated_def fresh_record_def)

lemma effect_dated: "effect e cur r = Inr (Some v) \<Longrightarrow> dated v (published_at r)"
  by (auto simp: effect_def fetched_record_def fresh_record_dated
           split: if_splits sum.splits option.splits dest: cached_record_dated)

lemma dated_unique: "dated v d \<Longrightarrow> dated v d' \<Longrightarrow> d = d'"
  by (auto simp: dated_def split: sum.splits)

lemma effect_nothing:
  "effect e cur r = Inr None \<Longrightarrow> \<not> draft r \<Longrightarrow> fetched_record e r = Inr None"
  by (auto simp: effect_def split: if_splits sum.splits option.splits)

lemma cached_record_key_sorted_absent:
  assumes "map_of W k = None"
  shows "cached_record (key_sorted (JObj W)) k d = Inr None"
  using assms by (simp add: cached_record_def map_of_key_sorted)

lemma cached_record_key_sorted_present:
  assumes "map_of W k = Some w" "dated w D"
  shows "cached_record (key_sorted (JObj W)) k d =
           (if d = D then Inr (Some (key_sorted w)) else Inr None)"
proof -
  from assms(2) obtain md where md: "py_getitem w ''metadata'' = Inr md"
    and rd: "py_getitem md ''releaseDate'' = Inr (JStr D)"
    by (auto simp: dated_def split: sum.splits)
  have c: "py_contains (key_sorted (JObj W)) k = Inr True"
    using assms(1) by (simp add: map_of_key_sorted)
  have g: "py_getitem (key_sorted (JObj W)) k = Inr (key_sorted w)"
    using assms(1) by (simp add: map_of_key_sorted)
  have m: "py_getitem (key_sorted w) ''metadata'' = Inr (key_sorted md)"
    using md by (simp add: py_getitem_key_sorted)
  have t: "py_getitem (key_sorted md) ''releaseDate'' = Inr (JStr D)"
    using rd by (simp add: py_getitem_key_sorted)
  show ?thesis
    by (simp only: cached_record_def c g m t sum.case bool.case json.inject) auto
qed

lemma fetched_record_same:
  "manifest_response e' = manifest_response e \<Longrightarrow> fetched_record e' r = fetched_record e r"
  by (simp add: fetched_record_def get_version_checksums_def)


lemma agrees_step:
  assumes same: "manifest_response e' = manifest_response e"
    and final: "map_of W k = final"
    and first: "process_release e cur st r = Inr st1"
    and again: "process_release e' (key_sorted (JObj W)) su r = Inr su1"
    and before: "agrees final (map_of (versions st) k) (map_of (versions su) k)"
  shows "agrees final (map_of (versions st1) k) (map_of (versions su1) k)"
proof (cases "version_key (tag_name r) = k \<and> \<not> draft r")
  case False
  from process_release_lookup [OF first, of k] False
  have "map_of (versions st1) k = map_of (versions st) k"
    by (auto simp: effect_def)
  moreover from process_release_lookup [OF again, of k] False
  have "map_of (versions su1) k = map_of (versions su) k"
    by (auto simp: effect_def)
  ultimately show ?thesis using before by simp
next
  case True
  then have key: "version_key (tag_name r) = k" and nd: "\<not> draft r" by simp_all
  from process_release_lookup [OF first, of k] key obtain w where
    w: "effect e cur r = Inr w"
    and l1: "map_of (versions st1) k = (case w of None \<Rightarrow> map_of (versions st) k | Some v \<Rightarrow> Some v)"
    by auto
  from process_release_lookup [OF again, of k] key obtain x where
    x: "effect e' (key_sorted (JObj W)) r = Inr x"
    and l2: "map_of (versions su1) k = (case x of None \<Rightarrow> map_of (versions su) k | Some v \<Rightarrow> Some v)"
    by auto
  show ?thesis
  proof (cases w)
    case (Some v)
    from w Some have dv: "dated v (published_at r)" by (auto dest: effect_dated)
    have "map_option key_sorted (map_of (versions su1) k) = map_option key_sorted final"
      if "Some v = final"
    proof -
      from that final have "map_of W k = Some v" by simp
      from cached_record_key_sorted_present [OF this dv, of "published_at r"]
      have "effect e' (key_sorted (JObj W)) r = Inr (Some (key_sorted v))"
        using nd key by (simp add: effect_def)
      with x have "x = Some (key_sorted v)" by simp
      with l2 that show ?thesis by (auto simp: key_sorted_idem)
    qed
    with l1 Some dv show ?thesis by (auto simp: agrees_def)
  next
    case None
    with l1 have same1: "map_of (versions st1) k = map_of (versions st) k" by simp
    from w None nd have f: "fetched_record e r = Inr None" by (auto dest: effect_nothing)
    have "map_option key_sorted (map_of (versions su1) k) = map_option key_sorted final"
      if eq: "map_of (versions st) k = final"
    proof -
      from before eq have old: "map_option key_sorted (map_of (versions su) k) = map_option key_sorted final"
        by (simp add: agrees_def)
      show ?thesis
      proof (cases final)
        case None
        with final have "map_of W k = None" by simp
        from cached_record_key_sorted_absent [OF this, of "published_at r"]
        have "effect e' (key_sorted (JObj W)) r = fetched_record e r"
          using nd key by (simp add: effect_def fetched_record_same [OF same])
        with x f have "x = None" by simp
        with l2 old show ?thesis by simp
      next
        case (Some u)
        with eq before obtain D where D: "dated u D" by (auto simp: agrees_def)
        from Some final have "map_of W k = Some u" by simp
        from cached_record_key_sorted_present [OF this D, of "published_at r"]
        have "effect e' (key_sorted (JObj W)) r =
                (if published_at r = D then Inr (Some (key_sorted u)) else fetched_record e r)"
          using nd key by (simp add: effect_def fetched_record_same [OF same])
        with x f have "x = (if published_at r = D then Some (key_sorted u) else None)"
          by (simp split: if_splits)
        with l2 old Some show ?thesis by (auto simp: key_sorted_idem split: if_splits)
      qed
    qed
    with same1 before show ?thesis by (auto simp: agrees_def)
  qed
qed

lemma agrees_run:
  assumes same: "manifest_response e' = manifest_response e"
    and final: "map_of W k = final"
  shows "process_releases e cur st rs = Inr st' \<Longrightarrow>
         process_releases e' (key_sorted (JObj W)) su rs = Inr su' \<Longrightarrow>
         agrees final (map_of (versions st) k) (map_of (versions su) k) \<Longrightarrow>
         agrees final (map_of (versions st') k) (map_of (versions su') k)"
proof (induction rs arbitrary: st su)
  case Nil
  then show ?case by simp
next
  case (Cons r rs)
  from Cons.prems(1) obtain st1 where r1: "process_release e cur st r = Inr st1"
    and rs1: "process_releases e cur st1 rs = Inr st'"
    by (auto split: sum.splits)
  from Cons.prems(2) obtain su1 where r2: "process_release e' (key_sorted (JObj W)) su r = Inr su1"
    and rs2: "process_releases e' (key_sorted (JObj W)) su1 rs = Inr su'"
    by (auto split: sum.splits)
  from agrees_step [OF same final r1 r2 Cons.prems(3)]
  have "agrees final (map_of (versions st1) k) (map_of (versions su1) k)" .
  from Cons.IH [OF rs1 rs2 this] show ?case .
qed

text \<open>A second run over the record written by a first run gives the same text.\<close>

lemma second_run_same_text:
  assumes same: "manifest_response e' = manifest_response e"
    and first: "process_releases e cur initial_state rs = Inr st"
    and again: "process_releases e' (key_sorted (JObj (versions st))) initial_state rs = Inr su"
  shows "json_dumps (JObj (versions su)) = json_dumps (JObj (versions st))"
proof (rule json_dumps_same)
  show "distinct (map fst (versions su))"
    using again by (rule process_releases_distinct) (simp add: initial_state_def)
  show "distinct (map fst (versions st))"
    using first by (rule process_releases_distinct) (simp add: initial_state_def)
  fix k
  have "agrees (map_of (versions st) k) (map_of (versions initial_state) k)
          (map_of (versions initial_state) k)"
    by (simp add: agrees_def initial_state_def)
  from agrees_run [OF same refl first again this]
  show "map_option key_sorted (map_of (versions su) k) =
        map_option key_sorted (map_of (versions st) k)"
    by (simp add: agrees_def)
qed

lemma effect_process_release:
  "effect e cur r = Inr w \<Longrightarrow> \<exists>st'. process_release e cur st r = Inr st'"
  by (auto simp: process_release_def effect_def fetched_record_def Let_def
           split: if_splits sum.splits option.splits)

lemma effects_process_releases:
  "\<forall>r\<in>set rs. \<exists>w. effect e cur r = Inr w \<Longrightarrow> \<exists>st'. process_releases e cur st rs = Inr st'"
proof (induction rs arbitrary: st)
  case Nil
  then show ?case by simp
next
  case (Cons r rs)
  then obtain w where "effect e cur r = Inr w" by auto
  from effect_process_release [OF this] obtain st1 where "process_release e cur st r = Inr st1"
    by blast
  moreover from Cons obtain st' where "process_releases e cur st1 rs = Inr st'"
    by fastforce
  ultimately show ?case by simp
qed

lemma single_release_lookup:
  assumes only: "\<forall>r'\<in>set rs. \<not> draft r' \<and> version_key (tag_name r') = k \<longrightarrow> r' = r"
    and r: "\<not> draft r" "version_key (tag_name r) = k" "effect e cur r = Inr w"
  shows "process_releases e cur st rs = Inr st' \<Longrightarrow>
         map_of (versions st') k =
           (if r \<in> set rs then (case w of None \<Rightarrow> map_of (versions st) k | Some v \<Rightarrow> Some v)
            else map_of (versions st) k)"
  using only
proof (induction rs arbitrary: st)
  case Nil
  then show ?case by simp
next
  case (Cons r' rs)
  from Cons.prems(1) obtain st1 where r1: "process_release e cur st r' = Inr st1"
    and rs1: "process_releases e cur st1 rs = Inr st'"
    by (auto split: sum.splits)
  from Cons.prems(2) have only': "\<forall>r'\<in>set rs. \<not> draft r' \<and> version_key (tag_name r') = k \<longrightarrow> r' = r"
    by simp
  note IH = Cons.IH [OF rs1 only']
  show ?case
  proof (cases "r' = r")
    case True
    from process_release_lookup [OF r1, of k] True r
    have "map_of (versions st1) k = (case w of None \<Rightarrow> map_of (versions st) k | Some v \<Rightarrow> Some v)"
      by auto
    with IH True show ?thesis by (cases w) simp_all
  next
    case False
    with Cons.prems(2) have "draft r' \<or> version_key (tag_name r') \<noteq> k" by auto
    with process_release_lookup [OF r1, of k]
    have "map_of (versions st1) k = map_of (versions st) k"
      by (auto simp: effect_def)
    with IH False show ?thesis by (cases w) simp_all
  qed
qed

lemma process_releases_effects:
  "process_releases e cur st rs = Inr st' \<Longrightarrow> \<forall>r\<in>set rs. \<exists>w. effect e cur r = Inr w"
proof (induction rs arbitrary: st)
  case Nil
  then show ?case by simp
next
  case (Cons r rs)
  from Cons.prems obtain st1 where r1: "process_release e cur st r = Inr st1"
    and rs1: "process_releases e cur st1 rs = Inr st'"
    by (auto split: sum.splits)
  from process_release_effect [OF r1] Cons.IH [OF rs1] show ?case by auto
qed

lemma second_run_completes:
  assumes same: "manifest_response e' = manifest_response e"
    and first: "process_releases e cur initial_state rs = Inr st"
    and keys: "distinct (map (\<lambda>r. version_key (tag_name r)) (filter (\<lambda>r. \<not> draft r) rs))"
  shows "\<exists>su. process_releases e' (key_sorted (JObj (versions st))) initial_state rs = Inr su"
proof (rule effects_process_releases, rule ballI)
  fix r
  assume mem: "r \<in> set rs"
  show "\<exists>w. effect e' (key_sorted (JObj (versions st))) r = Inr w"
  proof (cases "draft r")
    case True
    then show ?thesis by (simp add: effect_def)
  next
    case False
    from keys have "inj_on (\<lambda>r. version_key (tag_name r)) (set (filter (\<lambda>r. \<not> draft r) rs))"
      by (simp add: distinct_map)
    with mem False
    have only: "\<forall>r'\<in>set rs. \<not> draft r' \<and> version_key (tag_name r') = version_key (tag_name r) \<longrightarrow> r' = r"
      by (auto dest: inj_onD)
    from process_releases_effects [OF first]
    have "\<forall>r\<in>set rs. \<exists>w. effect e cur r = Inr w" .
    with mem obtain w where w: "effect e cur r = Inr w" by blast
    from single_release_lookup [OF only False refl w first] mem
    have final: "map_of (versions st) (version_key (tag_name r)) = w"
      by (cases w) (simp_all add: initial_state_def)
    show ?thesis
    proof (cases w)
      case None
      with w False have "fetched_record e r = Inr None" by (auto dest: effect_nothing)
      moreover from final None
      have "map_of (versions st) (version_key (tag_name r)) = None" by simp
      then have "cached_record (key_sorted (JObj (versions st))) (version_key (tag_name r)) (published_at r) = Inr None"
        by (rule cached_record_key_sorted_absent)
      ultimately show ?thesis
        using False by (simp add: effect_def fetched_record_same [OF same])
    next
      case (Some v)
      with w have "dated v (published_at r)" by (auto dest: effect_dated)
      moreover from final Some
      have "map_of (versions st) (version_key (tag_name r)) = Some v" by simp
      ultimately
      have "cached_record (key_sorted (JObj (versions st))) (version_key (tag_name r)) (published_at r) =
              Inr (Some (key_sorted v))"
        using cached_record_key_sorted_present [of "versions st" "version_key (tag_name r)" v
                "published_at r" "published_at r"]
        by simp
      then show ?thesis
        using False by (simp add: effect_def)
    qed
  qed
qed

lemma update_versions_file_success:
  assumes "update_versions_file e fs p = (Inr st, fs1)"
  shows "\<exists>rs. fetch_releases e = Inr rs \<and>
           process_releases e (load_current_versions e fs p) initial_state rs = Inr st \<and>
           fs1 p = Some (json_dumps (JObj (versions st)))"
  using assms
  by (auto simp: update_versions_file_def Let_def split: sum.splits)

text \<open>
  Claim C7. A second run after a first run that completed, with the same release list and
  the same manifests, leaves at the target path the very text that the first run wrote.
  The decoder is the one of the standard library: it returns the document that the first
  run wrote, with the entries of every dict in the order of their keys. The clock of the
  second run is arbitrary. If the second run raises, nothing is written and the file of
  the first run stays; if the version keys of the releases that are not drafts are
  distinct, the second run completes with exit status 0, and the file system after it
  differs from the one before only in the backup, which holds the same text.
\<close>

theorem second_run_is_identical:
  assumes first: "update_versions_file e fs versions_path = (Inr st, fs1)"
    and decoder: "json_load e (json_dumps (JObj (versions st))) =
                    Some (key_sorted (JObj (versions st)))"
  shows "fs1 versions_path = Some (json_dumps (JObj (versions st))) \<and>
         snd (main (e\<lparr>now := t\<rparr>) fs1) versions_path = fs1 versions_path \<and>
         (\<forall>rs. fetch_releases e = Inr rs \<and>
            distinct (map (\<lambda>r. version_key (tag_name r)) (filter (\<lambda>r. \<not> draft r) rs)) \<longrightarrow>
            main (e\<lparr>now := t\<rparr>) fs1 =
              (0, fs1([''versions'', ''versions.json.bak-'' @ strftime t] \<mapsto>
                        json_dumps (JObj (versions st)))))"
proof -
  let ?e = "e\<lparr>now := t\<rparr>"
  let ?written = "json_dumps (JObj (versions st))"
  let ?cur = "key_sorted (JObj (versions st))"
  let ?backup = "[''versions'', ''versions.json.bak-'' @ strftime t]"
  from update_versions_file_success [OF first] obtain rs where
    fetch: "fetch_releases e = Inr rs"
    and run: "process_releases e (load_current_versions e fs versions_path) initial_state rs = Inr st"
    and wr: "fs1 versions_path = Some ?written"
    by blast
  have same: "manifest_response ?e = manifest_response e" by simp
  have load: "load_current_versions ?e fs1 versions_path = ?cur"
    using wr decoder by (simp add: load_current_versions_def)
  have len: "py_len ?cur = Inr (length (versions st))"
    by (simp add: sorted_items_def)
  have fetch': "fetch_releases ?e = Inr rs"
    using fetch by (simp add: fetch_releases_def)
  have backup: "backup_existing ?e fs1 versions_path =
                  Inr ((fs1(?backup \<mapsto> ?written))(versions_path := None))"
    using wr by (simp add: backup_existing_def with_suffix_versions_path rename_def)
  have upd: "update_versions_file ?e fs1 versions_path =
      (case process_releases ?e ?cur initial_state rs of
         Inl err \<Rightarrow> (Inl err, fs1)
       | Inr su \<Rightarrow> (Inr su, fs1(?backup \<mapsto> ?written, versions_path \<mapsto> json_dumps (JObj (versions su)))))"
    by (simp add: update_versions_file_def load len fetch' backup split: sum.splits)
  have eq: "json_dumps (JObj (versions su)) = ?written"
    if "process_releases ?e ?cur initial_state rs = Inr su" for su
    using same run that by (rule second_run_same_text)
  have a: "snd (main ?e fs1) versions_path = fs1 versions_path"
    by (auto simp: main_def upd wr eq split: sum.splits)
  have b: "main ?e fs1 = (0, fs1(?backup \<mapsto> ?written))"
    if "distinct (map (\<lambda>r. version_key (tag_name r)) (filter (\<lambda>r. \<not> draft r) rs))"
  proof -
    from second_run_completes [OF same run that] obtain su where
      su: "process_releases ?e ?cur initial_state rs = Inr su"
      by blast
    have "fs1(?backup \<mapsto> ?written, versions_path \<mapsto> ?written) = fs1(?backup \<mapsto> ?written)"
      using wr by (auto simp: fun_eq_iff)
    with su eq [OF su] show ?thesis
      by (simp add: main_def upd)
  qed
  from wr a b fetch show ?thesis by auto
qed

theorem second_run_is_identical_witness:
  "fst (update_versions_file ex_env ex_fs versions_path) =
     Inr \<lparr>versions = ex_written, processed_count = 1, skipped_count = 3,
          resolver_calls = [''v1.0.0'', ''v0.9.0'', ''v0.8.0'']\<rparr> \<and>
   snd (update_versions_file ex_env ex_fs versions_path) versions_path =
     Some (json_dumps (JObj ex_written)) \<and>
   main (ex_env\<lparr>now := \<lparr>year = 2024, month = 3, day = 10, hour = 7, minute = 5, second = 0\<rparr>\<rparr>)
     (snd (update_versions_file ex_env ex_fs versions_path)) =
     (0, (snd (update_versions_file ex_env ex_fs versions_path))
           ([''versions'', ''versions.json.bak-20240310_070500''] \<mapsto> json_dumps (JObj ex_written)))"
proof -
  let ?st = "\<lparr>versions = ex_written, processed_count = 1, skipped_count = 3,
               resolver_calls = [''v1.0.0'', ''v0.9.0'', ''v0.8.0'']\<rparr>"
  let ?t = "\<lparr>year = 2024, month = 3, day = 10, hour = 7, minute = 5, second = 0\<rparr>"
  have run: "fst (update_versions_file ex_env ex_fs versions_path) = Inr ?st"
    by code_simp
  then have first: "update_versions_file ex_env ex_fs versions_path =
      (Inr ?st, snd (update_versions_file ex_env ex_fs versions_path))"
    by (simp add: prod_eq_iff)
  have decoder: "json_load ex_env (json_dumps (JObj (versions ?st))) =
      Some (key_sorted (JObj (versions ?st)))"
    by (simp add: ex_env_def ex_json_load_def)
  have releases: "fetch_releases ex_env = Inr [ex_draft, ex_release, ex_empty, ex_missing] \<and>
      distinct (map (\<lambda>r. version_key (tag_name r))
        (filter (\<lambda>r. \<not> draft r) [ex_draft, ex_release, ex_empty, ex_missing]))"
    by code_simp
  have stamp: "strftime ?t = ''20240310_070500''"
    by code_simp
  from second_run_is_identical [OF first decoder, of ?t] releases
  have "snd (update_versions_file ex_env ex_fs versions_path) versions_path =
          Some (json_dumps (JObj (versions ?st))) \<and>
        main (ex_env\<lparr>now := ?t\<rparr>) (snd (update_versions_file ex_env ex_fs versions_path)) =
          (0, (snd (update_versions_file ex_env ex_fs versions_path))
                ([''versions'', ''versions.json.bak-'' @ strftime ?t] \<mapsto>
                   json_dumps (JObj (versions ?st))))"
    by blast
  with run show ?thesis
    by (simp add: stamp)
qed

end
